theory Spec2Isabelle
  imports Main
begin

section \<open>Go values shared by the client and the scheduler\<close>

text \<open>
  A Go \<open>string\<close> is a \<^typ>\<open>string\<close>. A Go \<open>error\<close> is either the value an external
  call handed back, or a value built by \<open>fmt.Errorf\<close>: its message and, where the format
  uses \<open>%w\<close>, the wrapped cause. A \<open>nil\<close> error is \<open>None\<close> of \<^typ>\<open>'a option\<close>, and a Go
  result pair \<open>(value, err)\<close> is a sum with \<open>Inl\<close> for the error.
\<close>

datatype call_error =
  CallError (api_status: "int option") (is_deadline: bool) (message: string)
  \<comment> \<open>\<open>api_status\<close>: the HTTP status when \<open>errors.As\<close> finds an API error;
      \<open>is_deadline\<close>: \<open>errors.Is(err, context.DeadlineExceeded)\<close>; \<open>message\<close>: \<open>err.Error()\<close>\<close>

datatype error = Upstream call_error | Errorf string "error option"

datatype panic = IndexOutOfRange

subsection \<open>The functions of package \<open>strings\<close> that the code calls\<close>

definition HasPrefix :: "string \<Rightarrow> string \<Rightarrow> bool" where
  "HasPrefix s p = (take (length p) s = p)"

definition HasSuffix :: "string \<Rightarrow> string \<Rightarrow> bool" where
  "HasSuffix s p = (length p \<le> length s \<and> drop (length s - length p) s = p)"

fun Contains :: "string \<Rightarrow> string \<Rightarrow> bool" where
  "Contains [] sub = (sub = [])"
| "Contains (c # s) sub = (HasPrefix (c # s) sub \<or> Contains s sub)"

text \<open>\<open>strings.Index\<close> and \<open>strings.LastIndex\<close> for a one-character pattern: \<open>-1\<close> when absent.\<close>

fun Index :: "string \<Rightarrow> char \<Rightarrow> int" where
  "Index [] c = -1"
| "Index (x # xs) c =
     (if x = c then 0 else (let i = Index xs c in if i < 0 then -1 else i + 1))"

definition LastIndex :: "string \<Rightarrow> char \<Rightarrow> int" where
  "LastIndex s c =
     (let i = Index (rev s) c in if i < 0 then -1 else int (length s) - 1 - i)"

text \<open>\<open>s[lo:hi]\<close> for \<open>0 \<le> lo \<le> hi \<le> len(s)\<close>, the only way the code slices.\<close>

definition slice :: "string \<Rightarrow> int \<Rightarrow> int \<Rightarrow> string" where
  "slice s lo hi = take (nat (hi - lo)) (drop (nat lo) s)"

text \<open>
  \<open>strings.TrimSpace\<close> removes the leading and the trailing white space. Which
  characters are white space is the library's table, taken as the parameter \<open>sp\<close>.
\<close>

definition TrimSpace :: "(char \<Rightarrow> bool) \<Rightarrow> string \<Rightarrow> string" where
  "TrimSpace sp s = rev (dropWhile sp (rev (dropWhile sp s)))"

fun Join :: "string list \<Rightarrow> string \<Rightarrow> string" where
  "Join [] sep = []"
| "Join [x] sep = x"
| "Join (x # y # ys) sep = x @ sep @ Join (y # ys) sep"

section \<open>The translation client (package \<open>gpt\<close>)\<close>

text \<open>
  The handler owns the credential-bound sub-clients and the rotation index. The remote
  service is the field \<open>world\<close>, of a type the model leaves open; \<open>sent\<close> counts the
  completion calls issued so far (it is not a field of the Go struct: it records the
  calls so that theorems can speak of them). The mutex has no counterpart in a
  sequential model, and the \<open>time.Sleep\<close> between attempts changes no value.
\<close>

record 'w handler =
  clients :: "string list"
  index :: nat
  world :: 'w
  sent :: nat

datatype request =
  ChatRequest (req_model: string) (req_system: string) (req_user: string) (req_max_tokens: nat)

text \<open>
  What the client takes from outside the repository: the completion call of the
  OpenAI library (it answers with an error or with the message contents of the
  response's choices), the white-space table of \<open>strings.TrimSpace\<close>, and
  \<open>encoding/json\<close>. \<open>UnmarshalObject s\<close> is \<open>Inr ts\<close> when \<open>json.Unmarshal\<close> of \<open>s\<close>
  into the struct with the one field \<open>translations\<close> returns no error, \<open>ts\<close> being that
  field afterwards, and \<open>Inl\<close> of the error otherwise; \<open>UnmarshalArray\<close> is the same
  for a \<open>[]string\<close>.
\<close>

record 'w lib =
  CreateChatCompletion :: "'w \<Rightarrow> string \<Rightarrow> request \<Rightarrow> (call_error + string list) \<times> 'w"
  IsSpace :: "char \<Rightarrow> bool"
  MarshalTexts :: "string list \<Rightarrow> error + string"
  UnmarshalObject :: "string \<Rightarrow> error + string list"
  UnmarshalArray :: "string \<Rightarrow> error + string list"

definition New :: "string list \<Rightarrow> 'w \<Rightarrow> 'w handler" where
  "New ks w = \<lparr>clients = ks, index = 0, world = w, sent = 0\<rparr>"

text \<open>
  \<open>client := h.clients[h.index]; h.index = (h.index + 1) % len(h.clients)\<close>: with no
  sub-client the index expression panics.
\<close>

definition next_client :: "'w handler \<Rightarrow> panic + (string \<times> 'w handler)" where
  "next_client h =
     (if index h < length (clients h)
      then Inr (clients h ! index h, h\<lparr>index := (index h + 1) mod length (clients h)\<rparr>)
      else Inl IndexOutOfRange)"

text \<open>The \<open>err != nil\<close> block, the same in both operations: which cause is kept.\<close>

definition transport_failure :: "call_error \<Rightarrow> error" where
  "transport_failure e =
     (if api_status e = Some 429 then Errorf ''API rate limit exceeded'' (Some (Upstream e))
      else if api_status e = Some 500 \<or> api_status e = Some 502
              \<or> api_status e = Some 503 \<or> api_status e = Some 504
        then Errorf ''OpenAI server error'' (Some (Upstream e))
      else if is_deadline e \<or> Contains (message e) ''timeout''
        then Errorf ''request timed out'' (Some (Upstream e))
      else Errorf ''error creating chat completion'' (Some (Upstream e)))"

definition translate_request :: "string \<Rightarrow> string \<Rightarrow> request" where
  "translate_request text lang =
     ChatRequest ''gpt-3.5-turbo''
       (''You are a professional translator. Translate the text exactly as provided ''
        @ ''without adding any comments, explanations, or additional text. Maintain the ''
        @ ''original formatting including any HTML, markdown, or special characters. ''
        @ ''Do not alter placeholders, variables, or code snippets.'')
       (''Translate the following text to '' @ lang
        @ ''. Keep any markdown, HTML tags, and special characters ''
        @ ''(including [], {}, <>, etc.) unchanged:'' @ [CHR 0x0A, CHR 0x0A] @ text)
       1024"

text \<open>
  One pass through the body of a retry loop: \<open>Retry cause\<close> when the pass ends in
  \<open>continue\<close>, or falls out of the body, with \<open>lastErr = cause\<close>; \<open>Done r\<close> when it
  returns the result \<open>r\<close>; \<open>Abort e\<close> when it returns the error \<open>e\<close> at once.
\<close>

datatype 'a pass = Retry error | Abort error | Done 'a

definition blank :: "string \<Rightarrow> bool" where
  \<comment> \<open>the test \<open>s == "" || s == " "\<close>\<close>
  "blank s = (s = [] \<or> s = '' '')"

definition Translate_attempt ::
  "'w lib \<Rightarrow> string \<Rightarrow> string \<Rightarrow> nat \<Rightarrow> 'w handler \<Rightarrow> panic + (string pass \<times> 'w handler)" where
  "Translate_attempt L text lang attempt h =
     (case next_client h of
        Inl p \<Rightarrow> Inl p
      | Inr (client, h1) \<Rightarrow>
          (case CreateChatCompletion L (world h1) client (translate_request text lang) of
             (resp, w') \<Rightarrow>
               Inr ((case resp of
                       Inl e \<Rightarrow> Retry (transport_failure e)
                     | Inr [] \<Rightarrow> Retry (Errorf ''no choices in response'' None)
                     | Inr (content # _) \<Rightarrow>
                         (let result = TrimSpace (IsSpace L) content in
                          if blank result
                          then Retry (Errorf ''received empty translation'' None)
                          else Done result)),
                    h1\<lparr>world := w', sent := sent h1 + 1\<rparr>)))"

text \<open>
  \<open>for attempt := 0; attempt < 3; attempt++\<close>, and the return after the loop. A Go
  result \<open>("", err)\<close> is \<open>Inl err\<close>.
\<close>

function Translate_loop ::
  "'w lib \<Rightarrow> string \<Rightarrow> string \<Rightarrow> nat \<Rightarrow> error option \<Rightarrow> 'w handler
     \<Rightarrow> panic + ((error + string) \<times> 'w handler)" where
  "Translate_loop L text lang attempt lastErr h =
     (if attempt < 3 then
        (case Translate_attempt L text lang attempt h of
           Inl p \<Rightarrow> Inl p
         | Inr (Done result, h') \<Rightarrow> Inr (Inr result, h')
         | Inr (Abort e, h') \<Rightarrow> Inr (Inl e, h')
         | Inr (Retry cause, h') \<Rightarrow> Translate_loop L text lang (attempt + 1) (Some cause) h')
      else Inr (Inl (Errorf ''failed to translate after 3 attempts'' lastErr), h))"
  by pat_completeness auto
termination
  by (relation "measure (\<lambda>(L, text, lang, attempt, lastErr, h). 3 - attempt)") auto

declare Translate_loop.simps [simp del]

definition Translate ::
  "'w lib \<Rightarrow> 'w handler \<Rightarrow> string \<Rightarrow> string \<Rightarrow> panic + ((error + string) \<times> 'w handler)" where
  "Translate L h text lang = Translate_loop L text lang 0 None h"

subsection \<open>\<open>BatchTranslate\<close>\<close>

definition batch_request :: "string \<Rightarrow> string \<Rightarrow> request" where
  "batch_request textsJSON lang =
     ChatRequest ''gpt-3.5-turbo''
       (''You are a professional translator. Translate the array of texts exactly as ''
        @ ''provided without adding comments or explanations. Maintain all formatting ''
        @ ''including HTML, markdown, and special characters. Return your response ONLY ''
        @ ''as a valid JSON object in this exact format: {'' @ [CHR 0x22] @ ''translations''
        @ [CHR 0x22] @ '': ['' @ [CHR 0x22] @ ''translated text 1'' @ [CHR 0x22] @ '', ''
        @ [CHR 0x22] @ ''translated text 2'' @ [CHR 0x22] @ '', ...]}'')
       (''Translate this array of texts to '' @ lang
        @ ''. Keep any markdown, HTML tags, and special characters ''
        @ ''(including [], {}, <>, etc.) unchanged. Return ONLY a JSON object with a ''
        @ [CHR 0x27] @ ''translations'' @ [CHR 0x27] @ '' array.''
        @ [CHR 0x0A, CHR 0x0A] @ textsJSON)
       2048"

text \<open>
  The three ways a response is read, in the order of the code. \<open>n\<close> is \<open>len(texts)\<close>.
  The last two are the \<open>else\<close> branch of the first; a failure is the cause the pass
  leaves in \<open>lastErr\<close> before \<open>continue\<close>; the \<open>err\<close> that \<open>%w\<close> wraps is \<open>nil\<close>
  when the text was read and only the length differs.
\<close>

definition parse_array :: "'w lib \<Rightarrow> string \<Rightarrow> nat \<Rightarrow> error + string list" where
  "parse_array L content n =
     (case UnmarshalArray L content of
        Inr translations \<Rightarrow>
          if length translations \<noteq> n
          then Inl (Errorf ''failed to parse response as JSON array'' None)
          else Inr translations
      | Inl err \<Rightarrow> Inl (Errorf ''failed to parse response as JSON array'' (Some err)))"

definition parse_extracted :: "'w lib \<Rightarrow> string \<Rightarrow> nat \<Rightarrow> error + string list" where
  "parse_extracted L content n =
     (let startIdx = Index content CHR ''{''; endIdx = LastIndex content CHR ''}'' in
      if startIdx \<ge> 0 \<and> endIdx > startIdx then
        (case UnmarshalObject L (slice content startIdx (endIdx + 1)) of
           Inr translations \<Rightarrow>
             if length translations = n then Inr translations
             else Inl (Errorf ''failed to extract valid JSON response'' None)
         | Inl err \<Rightarrow> Inl (Errorf ''failed to extract valid JSON response'' None))
      else Inl (Errorf ''response did not contain valid JSON'' None))"

definition parse_fallback :: "'w lib \<Rightarrow> string \<Rightarrow> nat \<Rightarrow> error + string list" where
  "parse_fallback L content n =
     (if HasPrefix content ''['' \<and> HasSuffix content '']''
      then parse_array L content n
      else parse_extracted L content n)"

definition parse_response :: "'w lib \<Rightarrow> string \<Rightarrow> nat \<Rightarrow> error + string list" where
  "parse_response L content n =
     (case UnmarshalObject L content of
        Inr translations \<Rightarrow>
          if length translations = n then Inr translations else parse_fallback L content n
      | Inl err \<Rightarrow> parse_fallback L content n)"

text \<open>
  The loop headed \<open>// Validate translations\<close>: a blank element assigns \<open>lastErr\<close>, and
  its \<open>continue\<close> belongs to this inner loop. The value is what \<open>lastErr\<close> holds when
  the loop ends.
\<close>

fun validate :: "string list \<Rightarrow> string list \<Rightarrow> error option \<Rightarrow> error option" where
  "validate (translation # translations) (text # texts) lastErr =
     validate translations texts
       (if blank translation
        then Some (Errorf (''received empty translation for text: '' @ text) None)
        else lastErr)"
| "validate _ _ lastErr = lastErr"

definition BatchTranslate_attempt ::
  "'w lib \<Rightarrow> string list \<Rightarrow> string \<Rightarrow> nat \<Rightarrow> error option \<Rightarrow> 'w handler
     \<Rightarrow> panic + (string list pass \<times> 'w handler)" where
  "BatchTranslate_attempt L texts lang attempt lastErr h =
     (case MarshalTexts L texts of
        Inl err \<Rightarrow> Inr (Abort (Errorf ''error marshalling texts'' (Some err)), h)
      | Inr textsJSON \<Rightarrow>
          (case next_client h of
             Inl p \<Rightarrow> Inl p
           | Inr (client, h1) \<Rightarrow>
               (case CreateChatCompletion L (world h1) client (batch_request textsJSON lang) of
                  (resp, w') \<Rightarrow>
                    Inr ((case resp of
                            Inl e \<Rightarrow> Retry (transport_failure e)
                          | Inr [] \<Rightarrow> Retry (Errorf ''no choices in response'' None)
                          | Inr (content # _) \<Rightarrow>
                              (case parse_response L (TrimSpace (IsSpace L) content)
                                      (length texts) of
                                 Inl cause \<Rightarrow> Retry cause
                               | Inr translations \<Rightarrow>
                                   (let lastErr = validate translations texts lastErr
                                    in Done translations))),
                         h1\<lparr>world := w', sent := sent h1 + 1\<rparr>))))"

function BatchTranslate_loop ::
  "'w lib \<Rightarrow> string list \<Rightarrow> string \<Rightarrow> nat \<Rightarrow> error option \<Rightarrow> 'w handler
     \<Rightarrow> panic + ((error + string list) \<times> 'w handler)" where
  "BatchTranslate_loop L texts lang attempt lastErr h =
     (if attempt < 3 then
        (case BatchTranslate_attempt L texts lang attempt lastErr h of
           Inl p \<Rightarrow> Inl p
         | Inr (Done translations, h') \<Rightarrow> Inr (Inr translations, h')
         | Inr (Abort e, h') \<Rightarrow> Inr (Inl e, h')
         | Inr (Retry cause, h') \<Rightarrow>
             BatchTranslate_loop L texts lang (attempt + 1) (Some cause) h')
      else Inr (Inl (Errorf ''failed to batch translate after 3 attempts'' lastErr), h))"
  by pat_completeness auto
termination
  by (relation "measure (\<lambda>(L, texts, lang, attempt, lastErr, h). 3 - attempt)") auto

declare BatchTranslate_loop.simps [simp del]

definition BatchTranslate ::
  "'w lib \<Rightarrow> 'w handler \<Rightarrow> string list \<Rightarrow> string
     \<Rightarrow> panic + ((error + string list) \<times> 'w handler)" where
  "BatchTranslate L h texts lang = BatchTranslate_loop L texts lang 0 None h"

section \<open>The scheduler (package \<open>cmd\<close>)\<close>

text \<open>
  A locale document. \<open>LocaleItemsMap\<close> is the Go \<open>map[string]string\<close>; reading a key the
  map does not hold gives the empty string.
\<close>

record locale_file =
  Path :: string
  Lang :: string
  Code :: string
  LocaleItemsMap :: "string \<rightharpoonup> string"

definition lookup :: "(string \<rightharpoonup> string) \<Rightarrow> string \<Rightarrow> string" where
  "lookup m k = (case m k of None \<Rightarrow> [] | Some v \<Rightarrow> v)"

text \<open>\<open>xs[i]\<close>: outside the range Go panics.\<close>

definition at :: "'a list \<Rightarrow> nat \<Rightarrow> panic + 'a" where
  "at xs i = (if i < length xs then Inr (xs ! i) else Inl IndexOutOfRange)"

text \<open>
  What the scheduler takes from outside: the two operations of the handler it is
  given (the tests of the repository replace them by functions of the same shape), the
  JSON coding of a string array, \<open>strings.EqualFold\<close>, the serialiser of a document,
  \<open>os.WriteFile\<close> and \<open>filepath.Base\<close>. The type \<open>'c\<close> is the state of everything
  outside the process: the translation service and the file system.
\<close>

record 'c env =
  gptTranslate :: "'c \<Rightarrow> string \<Rightarrow> string \<Rightarrow> (error + string) \<times> 'c"
  gptBatchTranslate :: "'c \<Rightarrow> string list \<Rightarrow> string \<Rightarrow> (error + string list) \<times> 'c"
  UnmarshalStrings :: "string \<Rightarrow> error + string list"
  MarshalStrings :: "string list \<Rightarrow> error + string"
  EqualFold :: "string \<Rightarrow> string \<Rightarrow> bool"
  JSON :: "locale_file \<Rightarrow> error + string"
  WriteFile :: "'c \<Rightarrow> string \<Rightarrow> string \<Rightarrow> error option \<times> 'c"
  Base :: "string \<Rightarrow> string"

text \<open>
  The variables of one call. \<open>target\<close> is \<open>target.LocaleItemsMap\<close>, changed in place;
  \<open>batch\<close> and \<open>keys\<close> are used by the batch strategy only. \<open>calls\<close> is not a variable
  of the code: it records every call of the handler, as the keys it was issued for and
  the texts it carried, so that theorems can speak of the calls. The progress lines
  on the console and the error log files are left out; the last console line is kept
  in the result.
\<close>

record 'c run =
  target :: "string \<rightharpoonup> string"
  gpt :: 'c
  count :: nat
  translatedCount :: nat
  failedKeys :: "string list"
  batch :: "string list"
  keys :: "string list"
  calls :: "(string list \<times> string list) list"

datatype line = Summary string nat nat int nat
  \<comment> \<open>the last \<open>Printf\<close>: path, total, total, translated, failed\<close>

record 'c result =
  returned :: "error option"
  final :: "'c run"
  console :: "line list"

definition findMissingKeys :: "(string \<rightharpoonup> string) \<Rightarrow> (string \<rightharpoonup> string) \<Rightarrow> (string \<rightharpoonup> unit)" where
  "findMissingKeys source tgt =
     (\<lambda>k. if source k \<noteq> None \<and> tgt k = None then Some () else None)"

text \<open>
  The loop over \<open>missingKeys\<close> before the main loop: every missing key that the source
  holds gets the empty string. The writes go to different keys, so their order does
  not show.
\<close>

definition init_missing ::
  "(string \<rightharpoonup> unit) \<Rightarrow> (string \<rightharpoonup> string) \<Rightarrow> (string \<rightharpoonup> string) \<Rightarrow> (string \<rightharpoonup> string)" where
  "init_missing missingKeys source tgt =
     (\<lambda>k. if missingKeys k \<noteq> None \<and> source k \<noteq> None then Some [] else tgt k)"

definition start :: "locale_file \<Rightarrow> locale_file \<Rightarrow> 'c \<Rightarrow> 'c run" where
  "start source tfile w =
     \<lparr>target = init_missing (findMissingKeys (LocaleItemsMap source) (LocaleItemsMap tfile))
                 (LocaleItemsMap source) (LocaleItemsMap tfile),
      gpt = w, count = 1, translatedCount = 0, failedKeys = [],
      batch = [], keys = [], calls = []\<rparr>"

subsection \<open>Which keys are translated\<close>

text \<open>
  The block that sets \<open>needToTranslate\<close> for a key whose source value is not empty, in
  \<open>single_process\<close>. It also writes the override value. \<open>indep\<close> is \<open>None\<close> for a \<open>nil\<close>
  pointer.
\<close>

definition single_decide ::
  "string \<Rightarrow> locale_file option \<Rightarrow> (string \<rightharpoonup> unit) \<Rightarrow> (string \<rightharpoonup> string) \<Rightarrow> string
     \<Rightarrow> panic + (bool \<times> (string \<rightharpoonup> string))" where
  "single_decide mode indep missingKeys tgt k =
     (case tgt k of
        None \<Rightarrow> Inr (True, tgt)
      | Some _ \<Rightarrow>
          (case indep of
             Some i \<Rightarrow>
               (case LocaleItemsMap i k of
                  Some v \<Rightarrow> Inr (False, tgt(k \<mapsto> v))
                | None \<Rightarrow> Inr (False, tgt))
           | None \<Rightarrow>
               if mode = ''full'' then
                 (if length (lookup tgt k) = 0 then Inr (True, tgt)
                  else (case at (lookup tgt k) 0 of
                          Inl p \<Rightarrow> Inl p
                        | Inr c \<Rightarrow> if c = CHR ''!'' then Inr (True, tgt) else Inr (False, tgt)))
               else if mode = ''missing'' then Inr (missingKeys k \<noteq> None, tgt)
               else Inr (False, tgt)))"

text \<open>The same block in \<open>batch_process\<close>; \<open>v\<close> is the source value.\<close>

definition batch_decide ::
  "'c env \<Rightarrow> string \<Rightarrow> locale_file option \<Rightarrow> (string \<rightharpoonup> unit) \<Rightarrow> (string \<rightharpoonup> string)
     \<Rightarrow> string \<Rightarrow> string \<Rightarrow> panic + (bool \<times> (string \<rightharpoonup> string))" where
  "batch_decide E mode indep missingKeys tgt k v =
     (case tgt k of
        None \<Rightarrow> Inr (True, tgt)
      | Some _ \<Rightarrow>
          (case indep of
             Some i \<Rightarrow>
               (case LocaleItemsMap i k of
                  Some v' \<Rightarrow> Inr (False, tgt(k \<mapsto> v'))
                | None \<Rightarrow> Inr (False, tgt))
           | None \<Rightarrow>
               if mode = ''full'' then
                 (if EqualFold E (lookup tgt k) v \<or> length (lookup tgt k) = 0 then Inr (True, tgt)
                  else (case at (lookup tgt k) 0 of
                          Inl p \<Rightarrow> Inl p
                        | Inr c \<Rightarrow> if c = CHR ''!'' then Inr (True, tgt) else Inr (False, tgt)))
               else if mode = ''missing'' then Inr (missingKeys k \<noteq> None, tgt)
               else Inr (False, tgt)))"

subsection \<open>The single-item strategy\<close>

text \<open>
  The loop over the elements of an array value: \<open>None\<close> when it stops at a failed or
  blank element, else the translated array.
\<close>

fun translate_array ::
  "'c env \<Rightarrow> string \<Rightarrow> string \<Rightarrow> string list \<Rightarrow> string list \<Rightarrow> 'c run
     \<Rightarrow> string list option \<times> 'c run" where
  "translate_array E lang k [] translatedArray s = (Some translatedArray, s)"
| "translate_array E lang k (str # rest) translatedArray s =
     (case gptTranslate E (gpt s) str lang of
        (r, w') \<Rightarrow>
          (let s1 = s\<lparr>gpt := w', calls := calls s @ [([k], [str])]\<rparr> in
           case r of
             Inl err \<Rightarrow> (None, s1)
           | Inr translated \<Rightarrow>
               if blank translated then (None, s1)
               else translate_array E lang k rest (translatedArray @ [translated]) s1))"

text \<open>The array value of \<open>v\<close> when \<open>isValidJSONArray\<close> becomes true.\<close>

definition json_array :: "'c env \<Rightarrow> string \<Rightarrow> string list option" where
  "json_array E v =
     (if HasPrefix v ''['' \<and> HasSuffix v '']''
      then (case UnmarshalStrings E v of Inr stringArray \<Rightarrow> Some stringArray | Inl err \<Rightarrow> None)
      else None)"

text \<open>The body of \<open>if needToTranslate\<close> up to \<open>translationSuccess\<close>, which it returns.\<close>

definition single_translate ::
  "'c env \<Rightarrow> string \<Rightarrow> string \<Rightarrow> string \<Rightarrow> 'c run \<Rightarrow> bool \<times> 'c run" where
  "single_translate E lang k v s =
     (case json_array E v of
        Some stringArray \<Rightarrow>
          (case translate_array E lang k stringArray [] s of
             (None, s1) \<Rightarrow> (False, s1)
           | (Some translatedArray, s1) \<Rightarrow>
               (case MarshalStrings E translatedArray of
                  Inl err \<Rightarrow> (False, s1)
                | Inr resultBytes \<Rightarrow> (True, s1\<lparr>target := (target s1)(k \<mapsto> resultBytes)\<rparr>)))
      | None \<Rightarrow>
          (case gptTranslate E (gpt s) v lang of
             (r, w') \<Rightarrow>
               (let s1 = s\<lparr>gpt := w', calls := calls s @ [([k], [v])]\<rparr> in
                case r of
                  Inl err \<Rightarrow> (False, s1)
                | Inr result \<Rightarrow>
                    if blank result then (False, s1)
                    else (True, s1\<lparr>target := (target s1)(k \<mapsto> result)\<rparr>))))"

definition single_step ::
  "'c env \<Rightarrow> string \<Rightarrow> string \<Rightarrow> locale_file option \<Rightarrow> (string \<rightharpoonup> unit) \<Rightarrow> string \<Rightarrow> string
     \<Rightarrow> 'c run \<Rightarrow> panic + 'c run" where
  "single_step E lang mode indep missingKeys k v s =
     (if length v \<noteq> 0 then
        (case single_decide mode indep missingKeys (target s) k of
           Inl p \<Rightarrow> Inl p
         | Inr (needToTranslate, tgt) \<Rightarrow>
             (let s1 = s\<lparr>target := tgt\<rparr>;
                  s2 = (if needToTranslate then
                          (case single_translate E lang k v s1 of
                             (translationSuccess, s') \<Rightarrow>
                               if translationSuccess
                               then s'\<lparr>translatedCount := translatedCount s' + 1\<rparr>
                               else s'\<lparr>failedKeys := failedKeys s' @ [k]\<rparr>)
                        else s1)
              in Inr (s2\<lparr>count := count s2 + 1\<rparr>)))
      else Inr s)"

text \<open>
  \<open>for k, v := range source.LocaleItemsMap\<close>. Go fixes no order for the keys of a map:
  \<open>ks\<close> is the order in which this run visits them, and a theorem about the loop holds
  for every order. A key that the map does not hold is not visited.
\<close>

fun single_loop ::
  "'c env \<Rightarrow> string \<Rightarrow> string \<Rightarrow> locale_file option \<Rightarrow> (string \<rightharpoonup> unit)
     \<Rightarrow> (string \<rightharpoonup> string) \<Rightarrow> string list \<Rightarrow> 'c run \<Rightarrow> panic + 'c run" where
  "single_loop E lang mode indep missingKeys source [] s = Inr s"
| "single_loop E lang mode indep missingKeys source (k # ks) s =
     (case source k of
        None \<Rightarrow> single_loop E lang mode indep missingKeys source ks s
      | Some v \<Rightarrow>
          (case single_step E lang mode indep missingKeys k v s of
             Inl p \<Rightarrow> Inl p
           | Inr s' \<Rightarrow> single_loop E lang mode indep missingKeys source ks s'))"

text \<open>
  The end of both functions: the list of failed keys goes to a file (the error of that
  write is dropped), the document is serialised and written, and the last line is
  printed; an error of the serialiser or of the write is returned before that line.
  \<open>translated\<close> is the number the line shows.
\<close>

definition finish :: "'c env \<Rightarrow> locale_file \<Rightarrow> nat \<Rightarrow> int \<Rightarrow> 'c run \<Rightarrow> 'c result" where
  "finish E tfile totalKeys translated s =
     (let s1 = (if length (failedKeys s) > 0
                then s\<lparr>gpt := snd (WriteFile E (gpt s)
                                     (''failed_keys_'' @ Base E (Path tfile) @ ''.txt'')
                                     (Join (failedKeys s) [CHR 0x0A]))\<rparr>
                else s)
      in case JSON E (tfile\<lparr>LocaleItemsMap := target s1\<rparr>) of
           Inl err \<Rightarrow> \<lparr>returned = Some err, final = s1, console = []\<rparr>
         | Inr buf \<Rightarrow>
             (case WriteFile E (gpt s1) (Path tfile) buf of
                (Some err, w') \<Rightarrow> \<lparr>returned = Some err, final = s1\<lparr>gpt := w'\<rparr>, console = []\<rparr>
              | (None, w') \<Rightarrow>
                  \<lparr>returned = None, final = s1\<lparr>gpt := w'\<rparr>,
                   console = [Summary (Path tfile) totalKeys totalKeys translated
                                (length (failedKeys s1))]\<rparr>))"

text \<open>\<open>len(m)\<close> for a map.\<close>

definition len :: "(string \<rightharpoonup> string) \<Rightarrow> nat" where
  "len m = card (dom m)"

text \<open>
  \<open>single_process\<close>. The Go function returns the field \<open>returned\<close> and nothing else;
  the other fields of the result are what it leaves behind.
\<close>

definition single_process ::
  "'c env \<Rightarrow> locale_file \<Rightarrow> locale_file \<Rightarrow> locale_file option \<Rightarrow> string \<Rightarrow> string list \<Rightarrow> 'c
     \<Rightarrow> panic + 'c result" where
  "single_process E source tfile indep mode ks w =
     (case single_loop E (Lang tfile) mode indep
             (findMissingKeys (LocaleItemsMap source) (LocaleItemsMap tfile))
             (LocaleItemsMap source) ks (start source tfile w) of
        Inl p \<Rightarrow> Inl p
      | Inr s \<Rightarrow> Inr (finish E tfile (len (LocaleItemsMap source)) (int (translatedCount s)) s))"

subsection \<open>The batch strategy\<close>

text \<open>The loop of \<open>sendBatch\<close> after a failed call: every key of the batch is a failed key.\<close>

fun fail_batch :: "string list \<Rightarrow> nat \<Rightarrow> string list \<Rightarrow> string list \<Rightarrow> panic + string list" where
  "fail_batch ks i [] failed = Inr failed"
| "fail_batch ks i (src # rest) failed =
     (case at ks i of
        Inl p \<Rightarrow> Inl p
      | Inr k \<Rightarrow> fail_batch ks (i + 1) rest (failed @ [k]))"

text \<open>The loop of \<open>sendBatch\<close> over the results of a call that succeeded.\<close>

fun store_results :: "nat \<Rightarrow> string list \<Rightarrow> 'c run \<Rightarrow> panic + 'c run" where
  "store_results i [] s = Inr s"
| "store_results i (result # rest) s =
     (if blank result then
        (case at (keys s) i of
           Inl p \<Rightarrow> Inl p
         | Inr k \<Rightarrow>
             (case at (batch s) i of
                Inl p \<Rightarrow> Inl p
              | Inr src \<Rightarrow> store_results (i + 1) rest (s\<lparr>failedKeys := failedKeys s @ [k]\<rparr>)))
      else
        (case at (keys s) i of
           Inl p \<Rightarrow> Inl p
         | Inr k \<Rightarrow> store_results (i + 1) rest (s\<lparr>target := (target s)(k \<mapsto> result)\<rparr>)))"

text \<open>The closure \<open>sendBatch\<close>: the error it returns, and the variables afterwards.\<close>

definition sendBatch :: "'c env \<Rightarrow> string \<Rightarrow> 'c run \<Rightarrow> panic + (error option \<times> 'c run)" where
  "sendBatch E lang s =
     (if length (batch s) = 0 then Inr (None, s)
      else
        (case gptBatchTranslate E (gpt s) (batch s) lang of
           (r, w') \<Rightarrow>
             (let s1 = s\<lparr>gpt := w', calls := calls s @ [(keys s, batch s)]\<rparr> in
              case r of
                Inl err \<Rightarrow>
                  (case fail_batch (keys s1) 0 (batch s1) (failedKeys s1) of
                     Inl p \<Rightarrow> Inl p
                   | Inr failed \<Rightarrow> Inr (Some err, s1\<lparr>failedKeys := failed\<rparr>))
              | Inr results \<Rightarrow>
                  (case store_results 0 results s1 of
                     Inl p \<Rightarrow> Inl p
                   | Inr s2 \<Rightarrow> Inr (None, s2\<lparr>batch := [], keys := []\<rparr>)))))"

definition batch_step ::
  "'c env \<Rightarrow> string \<Rightarrow> int \<Rightarrow> string \<Rightarrow> locale_file option \<Rightarrow> (string \<rightharpoonup> unit) \<Rightarrow> string
     \<Rightarrow> string \<Rightarrow> 'c run \<Rightarrow> panic + 'c run" where
  "batch_step E lang batchSize mode indep missingKeys k v s =
     (if length v \<noteq> 0 then
        (case batch_decide E mode indep missingKeys (target s) k v of
           Inl p \<Rightarrow> Inl p
         | Inr (needToTranslate, tgt) \<Rightarrow>
             (let s1 = s\<lparr>target := tgt\<rparr> in
              case (if needToTranslate then
                      (let s2 = s1\<lparr>batch := batch s1 @ [v], keys := keys s1 @ [k],
                                   translatedCount := translatedCount s1 + 1\<rparr>
                       in if int (length (batch s2)) \<ge> batchSize
                          then (case sendBatch E lang s2 of
                                  Inl p \<Rightarrow> Inl p
                                | Inr (err, s3) \<Rightarrow> Inr s3)
                          else Inr s2)
                    else Inr s1) of
                Inl p \<Rightarrow> Inl p
              | Inr s4 \<Rightarrow> Inr (s4\<lparr>count := count s4 + 1\<rparr>)))
      else Inr s)"

fun batch_loop ::
  "'c env \<Rightarrow> string \<Rightarrow> int \<Rightarrow> string \<Rightarrow> locale_file option \<Rightarrow> (string \<rightharpoonup> unit)
     \<Rightarrow> (string \<rightharpoonup> string) \<Rightarrow> string list \<Rightarrow> 'c run \<Rightarrow> panic + 'c run" where
  "batch_loop E lang batchSize mode indep missingKeys source [] s = Inr s"
| "batch_loop E lang batchSize mode indep missingKeys source (k # ks) s =
     (case source k of
        None \<Rightarrow> batch_loop E lang batchSize mode indep missingKeys source ks s
      | Some v \<Rightarrow>
          (case batch_step E lang batchSize mode indep missingKeys k v s of
             Inl p \<Rightarrow> Inl p
           | Inr s' \<Rightarrow> batch_loop E lang batchSize mode indep missingKeys source ks s'))"

text \<open>
  \<open>batch_process\<close>: the main loop, the flush of what is left, the common end. The last
  line shows \<open>translatedCount - len(failedKeys)\<close>.
\<close>

definition batch_process ::
  "'c env \<Rightarrow> locale_file \<Rightarrow> locale_file \<Rightarrow> locale_file option \<Rightarrow> int \<Rightarrow> string \<Rightarrow> string list
     \<Rightarrow> 'c \<Rightarrow> panic + 'c result" where
  "batch_process E source tfile indep batchSize mode ks w =
     (case batch_loop E (Lang tfile) batchSize mode indep
             (findMissingKeys (LocaleItemsMap source) (LocaleItemsMap tfile))
             (LocaleItemsMap source) ks (start source tfile w) of
        Inl p \<Rightarrow> Inl p
      | Inr s \<Rightarrow>
          (case (if length (batch s) > 0 then sendBatch E (Lang tfile) s else Inr (None, s)) of
             Inl p \<Rightarrow> Inl p
           | Inr (err, s') \<Rightarrow>
               Inr (finish E tfile (len (LocaleItemsMap source))
                      (int (translatedCount s') - int (length (failedKeys s'))) s')))"

subsection \<open>Closed forms of the decision\<close>

text \<open>
  Two functions that are not in the code: what the decision block leaves in the
  target map, and whether it selects the key. They are proved equal to the blocks
  above, and serve to state what the loops do.
\<close>

definition override :: "locale_file option \<Rightarrow> (string \<rightharpoonup> string) \<Rightarrow> string \<Rightarrow> (string \<rightharpoonup> string)" where
  "override indep tgt k =
     (case indep of
        None \<Rightarrow> tgt
      | Some i \<Rightarrow>
          (case LocaleItemsMap i k of
             None \<Rightarrow> tgt
           | Some v \<Rightarrow> if tgt k = None then tgt else tgt(k \<mapsto> v)))"

definition marked :: "string \<Rightarrow> bool" where
  "marked t = (case t of [] \<Rightarrow> True | c # _ \<Rightarrow> c = CHR ''!'')"

definition single_need ::
  "string \<Rightarrow> locale_file option \<Rightarrow> (string \<rightharpoonup> unit) \<Rightarrow> (string \<rightharpoonup> string) \<Rightarrow> string \<Rightarrow> bool" where
  "single_need mode indep missingKeys tgt k =
     (tgt k = None \<or>
      (indep = None \<and>
       (if mode = ''full'' then marked (lookup tgt k)
        else mode = ''missing'' \<and> missingKeys k \<noteq> None)))"

definition batch_need ::
  "'c env \<Rightarrow> string \<Rightarrow> locale_file option \<Rightarrow> (string \<rightharpoonup> unit) \<Rightarrow> (string \<rightharpoonup> string) \<Rightarrow> string
     \<Rightarrow> string \<Rightarrow> bool" where
  "batch_need E mode indep missingKeys tgt k v =
     (tgt k = None \<or>
      (indep = None \<and>
       (if mode = ''full'' then EqualFold E (lookup tgt k) v \<or> marked (lookup tgt k)
        else mode = ''missing'' \<and> missingKeys k \<noteq> None)))"

text \<open>The keys for which a call of the handler was issued, in order.\<close>

definition called_keys :: "'c run \<Rightarrow> string list" where
  "called_keys s = concat (map fst (calls s))"

text \<open>
  What \<open>batch_process\<close> expects of \<open>BatchTranslate\<close>: a list of results has the length
  of the list of texts.
\<close>

definition same_length :: "'c env \<Rightarrow> bool" where
  "same_length E =
     (\<forall>w texts lang rs w'.
        gptBatchTranslate E w texts lang = (Inr rs, w') \<longrightarrow> length rs = length texts)"

text \<open>
  With an override map, or in missing mode with no missing key, a key that the
  target map holds is not selected.
\<close>

definition no_selection :: "string \<Rightarrow> locale_file option \<Rightarrow> (string \<rightharpoonup> unit) \<Rightarrow> bool" where
  "no_selection mode indep mk = (indep \<noteq> None \<or> (mode = ''missing'' \<and> mk = Map.empty))"

text \<open>The target map after the override block has run for the keys \<open>ks\<close>.\<close>

definition overridden ::
  "locale_file option \<Rightarrow> (string \<rightharpoonup> string) \<Rightarrow> string list \<Rightarrow> (string \<rightharpoonup> string)
     \<Rightarrow> (string \<rightharpoonup> string)" where
  "overridden indep source ks tgt =
     (\<lambda>k. if k \<in> set ks \<and> source k \<noteq> None \<and> source k \<noteq> Some []
          then override indep tgt k k else tgt k)"

text \<open>
  A translator that is the same for both operations and deterministic: whenever
  a call answers, the answer is the function \<open>t\<close> of the text, element by element
  for a batch. A call may still fail.
\<close>

definition deterministic :: "'c env \<Rightarrow> (string \<Rightarrow> string) \<Rightarrow> bool" where
  "deterministic E t =
     ((\<forall>w v lang r w'. gptTranslate E w v lang = (Inr r, w') \<longrightarrow> r = t v)
      \<and> (\<forall>w texts lang rs w'.
            gptBatchTranslate E w texts lang = (Inr rs, w') \<longrightarrow> rs = map t texts))"

text \<open>
  A key succeeds in a call when the handler was called for it and it is not among
  the failed keys at the end.
\<close>

definition succeeded :: "string \<Rightarrow> 'c run \<Rightarrow> bool" where
  "succeeded k s = (k \<in> set (called_keys s) \<and> k \<notin> set (failedKeys s))"

text \<open>
  What holds between flushes: the texts on the batch are the source values of the
  pending keys, and a key that has succeeded so far has the translation of its
  source value.
\<close>

definition pending_ok :: "(string \<rightharpoonup> string) \<Rightarrow> 'c run \<Rightarrow> bool" where
  "pending_ok source s = (batch s = map (lookup source) (keys s))"

definition settled :: "(string \<Rightarrow> string) \<Rightarrow> (string \<rightharpoonup> string) \<Rightarrow> 'c run \<Rightarrow> bool" where
  "settled t source s =
     (\<forall>k. succeeded k s \<longrightarrow> target s k = Some (t (lookup source k)))"

text \<open>The same for the single-item strategy, for the keys whose source value is not an array.\<close>

definition settled_plain ::
  "'c env \<Rightarrow> (string \<Rightarrow> string) \<Rightarrow> (string \<rightharpoonup> string) \<Rightarrow> 'c run \<Rightarrow> bool" where
  "settled_plain E t source s =
     (\<forall>k v. source k = Some v \<and> json_array E v = None \<and> succeeded k s
        \<longrightarrow> target s k = Some (t v))"

section \<open>Concrete services and documents\<close>


definition chatty_service :: "nat lib" where
  "chatty_service =
     \<lparr>CreateChatCompletion = (\<lambda>w client req. (Inr ['' Sure: {T} ok ''], w + 1)),
      IsSpace = (\<lambda>c. c = CHR '' ''),
      MarshalTexts = (\<lambda>ts. Inr (concat ts)),
      UnmarshalObject =
        (\<lambda>s. if s = ''{T}'' then Inr [''Bonjour'', ''''] else Inl (Errorf ''invalid character'' None)),
      UnmarshalArray = (\<lambda>s. Inl (Errorf ''invalid character'' None))\<rparr>"

text \<open>The JSON text of an array of strings that hold no character to escape.\<close>

definition plain_json :: "string list \<Rightarrow> string" where
  "plain_json xs = ''['' @ Join (map (\<lambda>x. [CHR 0x22] @ x @ [CHR 0x22]) xs) '','' @ '']''"

text \<open>
  A translator that puts \<open>T:\<close> before every text, and counts its calls. Its JSON
  decoder knows the one array used below; its \<open>EqualFold\<close> is right on the strings
  used below, none of which differ in case only.
\<close>

definition prefix_env :: "nat env" where
  "prefix_env =
     \<lparr>gptTranslate = (\<lambda>w v lang. (Inr (''T:'' @ v), w + 1)),
      gptBatchTranslate = (\<lambda>w texts lang. (Inr (map (\<lambda>v. ''T:'' @ v) texts), w + 1)),
      UnmarshalStrings =
        (\<lambda>s. if s = plain_json [''x''] then Inr [''x'']
             else Inl (Errorf ''invalid character'' None)),
      MarshalStrings = (\<lambda>xs. Inr (plain_json xs)),
      EqualFold = (\<lambda>a b. a = b),
      JSON = (\<lambda>f. Inr ''{}''),
      WriteFile = (\<lambda>w path content. (None, w)),
      Base = (\<lambda>p. p)\<rparr>"

text \<open>The same translator, whose first batch call fails.\<close>

definition flaky_env :: "nat env" where
  "flaky_env =
     prefix_env\<lparr>gptBatchTranslate :=
       (\<lambda>w texts lang.
          (if w = 0 then Inl (Errorf ''failed to batch translate after 3 attempts'' None)
           else Inr (map (\<lambda>v. ''T:'' @ v) texts), w + 1))\<rparr>"

definition doc :: "string \<Rightarrow> string \<Rightarrow> (string \<rightharpoonup> string) \<Rightarrow> locale_file" where
  "doc code lang items = \<lparr>Path = code @ ''.json'', Lang = lang, Code = code, LocaleItemsMap = items\<rparr>"

text \<open>
  The same translator over a world that is the files written so far, with a
  serialiser that shows the entry of the key \<open>a\<close> only.
\<close>

definition disk_env :: "(string \<rightharpoonup> string) env" where
  "disk_env =
     \<lparr>gptTranslate = (\<lambda>w v lang. (Inr (''T:'' @ v), w)),
      gptBatchTranslate = (\<lambda>w texts lang. (Inr (map (\<lambda>v. ''T:'' @ v) texts), w)),
      UnmarshalStrings = (\<lambda>s. Inl (Errorf ''invalid character'' None)),
      MarshalStrings = (\<lambda>xs. Inr (plain_json xs)),
      EqualFold = (\<lambda>a b. a = b),
      JSON = (\<lambda>f. Inr (case LocaleItemsMap f ''a'' of
                          None \<Rightarrow> ''{}''
                        | Some v \<Rightarrow> ''{a: '' @ v @ ''}'')),
      WriteFile = (\<lambda>w path content. (None, w(path \<mapsto> content))),
      Base = (\<lambda>p. p)\<rparr>"

section \<open>The client: attempts and lengths\<close>











lemma parse_response_length:
  "parse_response L content n = Inr ts \<Longrightarrow>
     length ts = n \<and>
     (UnmarshalObject L content = Inr ts \<or> UnmarshalArray L content = Inr ts
      \<or> UnmarshalObject L (slice content (Index content CHR ''{'') (LastIndex content CHR ''}'' + 1))
           = Inr ts)"
  by (auto simp: parse_response_def parse_fallback_def parse_array_def parse_extracted_def Let_def
           split: sum.splits if_splits)

lemma BatchTranslate_attempt_Done:
  "BatchTranslate_attempt L texts lang a le h = Inr (Done ts, h') \<Longrightarrow> length ts = length texts"
  by (auto simp: BatchTranslate_attempt_def Let_def dest: parse_response_length
           split: sum.splits prod.splits list.splits)

lemma BatchTranslate_loop_unroll:
  "a < 3 \<Longrightarrow> BatchTranslate_attempt L texts lang a le h = Inr (Retry cause, h1) \<Longrightarrow>
   BatchTranslate_loop L texts lang a le h = BatchTranslate_loop L texts lang (a + 1) (Some cause) h1"
  "a < 3 \<Longrightarrow> BatchTranslate_attempt L texts lang a le h = Inr (Done r, h1) \<Longrightarrow>
   BatchTranslate_loop L texts lang a le h = Inr (Inr r, h1)"
  "a < 3 \<Longrightarrow> BatchTranslate_attempt L texts lang a le h = Inr (Abort e, h1) \<Longrightarrow>
   BatchTranslate_loop L texts lang a le h = Inr (Inl e, h1)"
  "a < 3 \<Longrightarrow> BatchTranslate_attempt L texts lang a le h = Inl p \<Longrightarrow>
   BatchTranslate_loop L texts lang a le h = Inl p"
  "\<not> a < 3 \<Longrightarrow>
   BatchTranslate_loop L texts lang a le h
     = Inr (Inl (Errorf ''failed to batch translate after 3 attempts'' le), h)"
  by (subst BatchTranslate_loop.simps, simp)+

lemma BatchTranslate_loop_length:
  "BatchTranslate_loop L texts lang a le h = Inr (Inr ts, h') \<Longrightarrow> length ts = length texts"
proof (induction L texts lang a le h rule: BatchTranslate_loop.induct)
  case (1 L texts lang attempt lastErr h)
  show ?case
  proof (cases "attempt < 3")
    case False
    with "1.prems" show ?thesis by (simp add: BatchTranslate_loop_unroll)
  next
    case True
    show ?thesis
    proof (cases "BatchTranslate_attempt L texts lang attempt lastErr h")
      case (Inl p)
      then show ?thesis using "1.prems" True by (simp add: BatchTranslate_loop_unroll)
    next
      case (Inr b)
      obtain p h1 where a: "BatchTranslate_attempt L texts lang attempt lastErr h = Inr (p, h1)"
        using Inr by (cases b) simp
      show ?thesis
      proof (cases p)
        case (Retry cause)
        have "BatchTranslate_loop L texts lang (attempt + 1) (Some cause) h1 = Inr (Inr ts, h')"
          using "1.prems" True a Retry by (simp add: BatchTranslate_loop_unroll)
        then show ?thesis using "1.IH" [OF True a refl Retry] by simp
      next
        case (Abort e)
        then show ?thesis using "1.prems" True a by (simp add: BatchTranslate_loop_unroll)
      next
        case (Done x)
        then have "x = ts" using "1.prems" True a by (simp add: BatchTranslate_loop_unroll)
        then show ?thesis using a Done BatchTranslate_attempt_Done by blast
      qed
    qed
  qed
qed

text \<open>
  Claim C7. A list that \<open>BatchTranslate\<close> returns has the length of the input list.
  Each of the three readings of a response is accepted only with that length. A pass
  whose response reads to a list of that length returns the list as it is, blank
  elements included, and issues no further call.
\<close>

theorem BatchTranslate_same_length:
  "(\<forall>ts h'. BatchTranslate L h texts lang = Inr (Inr ts, h') \<longrightarrow> length ts = length texts)
   \<and> (\<forall>content n ts. parse_response L content n = Inr ts \<longrightarrow>
        length ts = n \<and>
        (UnmarshalObject L content = Inr ts \<or> UnmarshalArray L content = Inr ts
         \<or> UnmarshalObject L
              (slice content (Index content CHR ''{'') (LastIndex content CHR ''}'' + 1)) = Inr ts))
   \<and> (\<forall>attempt lastErr textsJSON client h1 content rest w' ts.
        attempt < 3 \<and> MarshalTexts L texts = Inr textsJSON
        \<and> next_client h = Inr (client, h1)
        \<and> CreateChatCompletion L (world h1) client (batch_request textsJSON lang)
            = (Inr (content # rest), w')
        \<and> parse_response L (TrimSpace (IsSpace L) content) (length texts) = Inr ts
        \<longrightarrow> BatchTranslate_loop L texts lang attempt lastErr h
            = Inr (Inr ts, h1\<lparr>world := w', sent := sent h1 + 1\<rparr>))"
proof -
  have p1: "\<forall>ts h'. BatchTranslate L h texts lang = Inr (Inr ts, h') \<longrightarrow> length ts = length texts"
    using BatchTranslate_loop_length [of L texts lang 0 None h]
    by (simp add: BatchTranslate_def)
  have p2: "\<forall>content n ts. parse_response L content n = Inr ts \<longrightarrow>
        length ts = n \<and>
        (UnmarshalObject L content = Inr ts \<or> UnmarshalArray L content = Inr ts
         \<or> UnmarshalObject L
              (slice content (Index content CHR ''{'') (LastIndex content CHR ''}'' + 1)) = Inr ts)"
    using parse_response_length [of L] by blast
  have p3: "\<forall>attempt lastErr textsJSON client h1 content rest w' ts.
        attempt < 3 \<and> MarshalTexts L texts = Inr textsJSON
        \<and> next_client h = Inr (client, h1)
        \<and> CreateChatCompletion L (world h1) client (batch_request textsJSON lang)
            = (Inr (content # rest), w')
        \<and> parse_response L (TrimSpace (IsSpace L) content) (length texts) = Inr ts
        \<longrightarrow> BatchTranslate_loop L texts lang attempt lastErr h
            = Inr (Inr ts, h1\<lparr>world := w', sent := sent h1 + 1\<rparr>)"
  proof (intro allI impI)
    fix attempt :: nat and lastErr textsJSON client h1 content rest w' ts
    assume a: "attempt < 3 \<and> MarshalTexts L texts = Inr textsJSON
        \<and> next_client h = Inr (client, h1)
        \<and> CreateChatCompletion L (world h1) client (batch_request textsJSON lang)
            = (Inr (content # rest), w')
        \<and> parse_response L (TrimSpace (IsSpace L) content) (length texts) = Inr ts"
    then have "BatchTranslate_attempt L texts lang attempt lastErr h
       = Inr (Done ts, h1\<lparr>world := w', sent := sent h1 + 1\<rparr>)"
      by (simp add: BatchTranslate_attempt_def)
    then show "BatchTranslate_loop L texts lang attempt lastErr h
              = Inr (Inr ts, h1\<lparr>world := w', sent := sent h1 + 1\<rparr>)"
      using a by (simp add: BatchTranslate_loop_unroll)
  qed
  show ?thesis by (rule conjI [OF p1 conjI [OF p2 p3]])
qed

theorem BatchTranslate_same_length_witness:
  "BatchTranslate chatty_service (New [''k1'', ''k2''] 0) [''Hello'', ''Bye''] ''French''
     = Inr (Inr [''Bonjour'', ''''],
            \<lparr>clients = [''k1'', ''k2''], index = 1, world = 1, sent = 1\<rparr>)
   \<and> length [''Bonjour'', ''''] = length [''Hello'', ''Bye'']
   \<and> parse_response chatty_service ''Sure: {T} ok'' 2 = Inr [''Bonjour'', '''']
   \<and> UnmarshalObject chatty_service
        (slice ''Sure: {T} ok'' (Index ''Sure: {T} ok'' CHR ''{'')
           (LastIndex ''Sure: {T} ok'' CHR ''}'' + 1)) = Inr [''Bonjour'', '''']
   \<and> BatchTranslate_loop chatty_service [''Hello'', ''Bye''] ''French'' 2
        (Some (Errorf ''no choices in response'' None)) (New [''k1'', ''k2''] 0)
       = Inr (Inr [''Bonjour'', ''''],
              \<lparr>clients = [''k1'', ''k2''], index = 1, world = 1, sent = 1\<rparr>)"
proof -
  let ?h = "New [''k1'', ''k2''] (0::nat)"
  let ?h1 = "\<lparr>clients = [''k1'', ''k2''], index = 1, world = 0::nat, sent = 0\<rparr>"
  let ?texts = "[''Hello'', ''Bye'']"
  note T = BatchTranslate_same_length [of chatty_service ?h ?texts "''French''"]
  have parse: "parse_response chatty_service ''Sure: {T} ok'' 2 = Inr [''Bonjour'', '''']"
    by (simp add: parse_response_def parse_fallback_def parse_extracted_def parse_array_def
          chatty_service_def HasPrefix_def HasSuffix_def LastIndex_def slice_def)
  have run: "BatchTranslate chatty_service ?h ?texts ''French''
     = Inr (Inr [''Bonjour'', ''''],
            \<lparr>clients = [''k1'', ''k2''], index = 1, world = 1, sent = 1\<rparr>)"
    by (simp add: BatchTranslate_def BatchTranslate_loop.simps BatchTranslate_attempt_def
          New_def next_client_def parse_response_def parse_fallback_def parse_extracted_def
          parse_array_def chatty_service_def HasPrefix_def HasSuffix_def LastIndex_def
          slice_def TrimSpace_def)
  have len: "length [''Bonjour'', ''''] = length ?texts"
    using T [THEN conjunct1, rule_format, OF run] .
  have which: "length [''Bonjour'', ''''] = 2 \<and>
        (UnmarshalObject chatty_service ''Sure: {T} ok'' = Inr [''Bonjour'', '''']
         \<or> UnmarshalArray chatty_service ''Sure: {T} ok'' = Inr [''Bonjour'', '''']
         \<or> UnmarshalObject chatty_service
              (slice ''Sure: {T} ok'' (Index ''Sure: {T} ok'' CHR ''{'')
                 (LastIndex ''Sure: {T} ok'' CHR ''}'' + 1)) = Inr [''Bonjour'', ''''])"
    using T [THEN conjunct2, THEN conjunct1, rule_format, OF parse] .
  then have third: "UnmarshalObject chatty_service
              (slice ''Sure: {T} ok'' (Index ''Sure: {T} ok'' CHR ''{'')
                 (LastIndex ''Sure: {T} ok'' CHR ''}'' + 1)) = Inr [''Bonjour'', '''']"
    by (simp add: chatty_service_def)
  have hyp: "(2::nat) < 3 \<and> MarshalTexts chatty_service ?texts = Inr ''HelloBye''
        \<and> next_client ?h = Inr (''k1'', ?h1)
        \<and> CreateChatCompletion chatty_service (world ?h1) ''k1''
             (batch_request ''HelloBye'' ''French'') = (Inr ['' Sure: {T} ok ''], 1)
        \<and> parse_response chatty_service
             (TrimSpace (IsSpace chatty_service) '' Sure: {T} ok '') (length ?texts)
            = Inr [''Bonjour'', '''']"
    using parse by (simp add: New_def next_client_def chatty_service_def TrimSpace_def
                      numeral_2_eq_2)
  have once: "BatchTranslate_loop chatty_service ?texts ''French'' 2
        (Some (Errorf ''no choices in response'' None)) ?h
       = Inr (Inr [''Bonjour'', ''''], ?h1\<lparr>world := 1, sent := sent ?h1 + 1\<rparr>)"
    using T [THEN conjunct2, THEN conjunct2, rule_format, OF hyp] .
  show ?thesis using run len parse third once by simp
qed

section \<open>The decision, and the frame of the single-item strategy\<close>


lemma at_0: "at (c # cs) 0 = Inr c"
  by (simp add: at_def)

lemma single_decide_closed:
  "single_decide mode indep missingKeys tgt k
     = Inr (single_need mode indep missingKeys tgt k, override indep tgt k)"
  by (cases "lookup tgt k")
     (auto simp: single_decide_def single_need_def override_def marked_def at_0
           split: option.splits)

lemma batch_decide_closed:
  "batch_decide E mode indep missingKeys tgt k v
     = Inr (batch_need E mode indep missingKeys tgt k v, override indep tgt k)"
  by (cases "lookup tgt k")
     (auto simp: batch_decide_def batch_need_def override_def marked_def at_0
           split: option.splits)

lemma override_other: "k' \<noteq> k \<Longrightarrow> override indep tgt k k' = tgt k'"
  by (simp add: override_def split: option.splits)

lemma dom_override [simp]: "dom (override indep tgt k) = dom tgt"
  by (auto simp: override_def split: option.splits if_splits)

lemma called_keys_append [simp]:
  "called_keys (s\<lparr>calls := calls s @ cs\<rparr>) = called_keys s @ concat (map fst cs)"
  by (simp add: called_keys_def)

text \<open>What a run of the array loop changes: the outside and the record of calls.\<close>

lemma translate_array_frame:
  "translate_array E lang k arr acc s = (r, s') \<Longrightarrow>
     target s' = target s \<and> failedKeys s' = failedKeys s \<and> batch s' = batch s
     \<and> keys s' = keys s \<and> count s' = count s \<and> translatedCount s' = translatedCount s
     \<and> (\<exists>cs. calls s' = calls s @ cs \<and> (\<forall>c\<in>set cs. fst c = [k]) \<and> length cs \<le> length arr)"
proof (induction arr arbitrary: acc s)
  case Nil
  then show ?case by simp
next
  case (Cons str rest)
  obtain r0 w' where g: "gptTranslate E (gpt s) str lang = (r0, w')"
    by (cases "gptTranslate E (gpt s) str lang")
  let ?s1 = "s\<lparr>gpt := w', calls := calls s @ [([k], [str])]\<rparr>"
  show ?case
  proof (cases "\<exists>t. r0 = Inr t \<and> \<not> blank t")
    case True
    then obtain t where t: "r0 = Inr t" "\<not> blank t" by blast
    have "translate_array E lang k rest (acc @ [t]) ?s1 = (r, s')"
      using Cons.prems g t by simp
    from Cons.IH [OF this] show ?thesis by auto
  next
    case False
    then have "s' = ?s1" using Cons.prems g by (auto simp: Let_def split: sum.splits if_splits)
    then show ?thesis by simp
  qed
qed

lemma single_translate_frame:
  assumes "single_translate E lang k v s = (ok, s')"
  shows "failedKeys s' = failedKeys s \<and> batch s' = batch s
     \<and> keys s' = keys s \<and> count s' = count s \<and> translatedCount s' = translatedCount s
     \<and> (\<exists>cs. calls s' = calls s @ cs \<and> (\<forall>c\<in>set cs. fst c = [k]))
     \<and> (target s' = target s \<or> (\<exists>r. ok \<and> target s' = (target s)(k \<mapsto> r)))"
proof (cases "json_array E v")
  case None
  obtain r0 w' where g: "gptTranslate E (gpt s) v lang = (r0, w')"
    by (cases "gptTranslate E (gpt s) v lang")
  show ?thesis using assms None g
    by (auto simp: single_translate_def Let_def split: sum.splits if_splits)
next
  case (Some arr)
  obtain r0 s1 where a: "translate_array E lang k arr [] s = (r0, s1)"
    by (cases "translate_array E lang k arr [] s")
  from translate_array_frame [OF a] obtain cs where
    f: "target s1 = target s" "failedKeys s1 = failedKeys s" "batch s1 = batch s"
       "keys s1 = keys s" "count s1 = count s" "translatedCount s1 = translatedCount s"
       "calls s1 = calls s @ cs" "\<forall>c\<in>set cs. fst c = [k]"
    by blast
  show ?thesis using assms Some a f
    by (auto simp: single_translate_def split: option.splits sum.splits)
qed

lemma single_step_total: "\<exists>s'. single_step E lang mode indep mk k v s = Inr s'"
  by (simp add: single_step_def single_decide_closed Let_def)

lemma single_step_empty [simp]: "single_step E lang mode indep mk k [] s = Inr s"
  by (simp add: single_step_def)

lemma single_step_frame:
  assumes "single_step E lang mode indep mk k v s = Inr s'"
  shows "batch s' = batch s \<and> keys s' = keys s
     \<and> (\<exists>cs. calls s' = calls s @ cs \<and> (\<forall>c\<in>set cs. fst c = [k]))
     \<and> (failedKeys s' = failedKeys s \<or> failedKeys s' = failedKeys s @ [k])
     \<and> (\<forall>k'. k' \<noteq> k \<longrightarrow> target s' k' = target s k')
     \<and> dom (target s) \<subseteq> dom (target s')"
proof (cases "v = []")
  case True
  then show ?thesis using assms by simp
next
  case False
  let ?s1 = "s\<lparr>target := override indep (target s) k\<rparr>"
  show ?thesis
  proof (cases "single_need mode indep mk (target s) k")
    case False
    with \<open>v \<noteq> []\<close> assms have "s' = ?s1\<lparr>count := count ?s1 + 1\<rparr>"
      by (simp add: single_step_def single_decide_closed Let_def)
    then show ?thesis by (simp add: override_other)
  next
    case True
    obtain ok s2 where t: "single_translate E lang k v ?s1 = (ok, s2)"
      by (cases "single_translate E lang k v ?s1")
    from single_translate_frame [OF t] obtain cs where
      f: "failedKeys s2 = failedKeys s" "batch s2 = batch s" "keys s2 = keys s"
         "calls s2 = calls s @ cs" "\<forall>c\<in>set cs. fst c = [k]"
         "target s2 = override indep (target s) k
            \<or> (\<exists>r. ok \<and> target s2 = (override indep (target s) k)(k \<mapsto> r))"
      by auto
    have s': "s' = (if ok then s2\<lparr>translatedCount := translatedCount s2 + 1\<rparr>
                    else s2\<lparr>failedKeys := failedKeys s2 @ [k]\<rparr>)
                   \<lparr>count := count s2 + 1\<rparr>"
      using assms \<open>v \<noteq> []\<close> True t
      by (auto simp: single_step_def single_decide_closed Let_def)
    have d: "dom (target s) \<subseteq> dom (target s2)"
      using f(6) by (auto simp del: dom_override simp: dom_override [symmetric, of "target s" indep k])
    show ?thesis using s' f(1-5) d f(6) by (auto simp: override_other)
  qed
qed



lemma single_step_skip:
  "v \<noteq> [] \<Longrightarrow> \<not> single_need mode indep mk (target s) k \<Longrightarrow>
   single_step E lang mode indep mk k v s
     = Inr (s\<lparr>target := override indep (target s) k, count := count s + 1\<rparr>)"
  by (simp add: single_step_def single_decide_closed)

lemma single_loop_rule:
  assumes "P s"
    and "\<And>k v s s'. k \<in> set ks \<Longrightarrow> source k = Some v \<Longrightarrow> P s \<Longrightarrow>
           single_step E lang mode indep mk k v s = Inr s' \<Longrightarrow> P s'"
  shows "\<exists>s'. single_loop E lang mode indep mk source ks s = Inr s' \<and> P s'"
  using assms
proof (induction ks arbitrary: s)
  case Nil
  then show ?case by simp
next
  case (Cons k ks)
  have step: "\<And>k' v s s'. k' \<in> set ks \<Longrightarrow> source k' = Some v \<Longrightarrow> P s \<Longrightarrow>
           single_step E lang mode indep mk k' v s = Inr s' \<Longrightarrow> P s'"
    using Cons.prems(2) by (meson list.set_intros(2))
  show ?case
  proof (cases "source k")
    case None
    then show ?thesis using Cons.IH [OF Cons.prems(1) step] by simp
  next
    case (Some v)
    obtain s1 where s1: "single_step E lang mode indep mk k v s = Inr s1"
      using single_step_total by blast
    have "P s1" using Cons.prems(2) [OF _ Some Cons.prems(1) s1] by simp
    then show ?thesis using Cons.IH [OF _ step, of s1] Some s1 by simp
  qed
qed

lemma single_process_total:
  "\<exists>r. single_process E source tfile indep mode ks w = Inr r"
proof -
  obtain s' where "single_loop E (Lang tfile) mode indep
             (findMissingKeys (LocaleItemsMap source) (LocaleItemsMap tfile))
             (LocaleItemsMap source) ks (start source tfile w) = Inr s'"
    using single_loop_rule [of "\<lambda>s. True"] by blast
  then show ?thesis by (simp add: single_process_def)
qed

lemma start_simps [simp]:
  "target (start source tfile w)
     = init_missing (findMissingKeys (LocaleItemsMap source) (LocaleItemsMap tfile))
         (LocaleItemsMap source) (LocaleItemsMap tfile)"
  "calls (start source tfile w) = []" "batch (start source tfile w) = []"
  "keys (start source tfile w) = []" "failedKeys (start source tfile w) = []"
  "translatedCount (start source tfile w) = 0" "count (start source tfile w) = 1"
  "gpt (start source tfile w) = w"
  by (simp_all add: start_def)

lemma init_missing_apply:
  "init_missing (findMissingKeys src tgt) src tgt k
     = (if src k \<noteq> None \<and> tgt k = None then Some [] else tgt k)"
  by (simp add: init_missing_def findMissingKeys_def)

lemma finish_final:
  "target (final (finish E tfile n tr s)) = target s"
  "calls (final (finish E tfile n tr s)) = calls s"
  "failedKeys (final (finish E tfile n tr s)) = failedKeys s"
  "translatedCount (final (finish E tfile n tr s)) = translatedCount s"
  "called_keys (final (finish E tfile n tr s)) = called_keys s"
  by (simp_all add: finish_def Let_def called_keys_def split: sum.splits prod.splits option.splits)

text \<open>When no error is returned, the final map was serialised and the result written.\<close>

lemma finish_written:
  "returned (finish E tfile n tr s) = None \<Longrightarrow>
     \<exists>buf w'. JSON E (tfile\<lparr>LocaleItemsMap := target s\<rparr>) = Inr buf
            \<and> WriteFile E w' (Path tfile) buf = (None, gpt (final (finish E tfile n tr s)))"
  by (auto simp: finish_def Let_def split: sum.splits prod.splits option.splits if_splits)

section \<open>The frame of the batch strategy\<close>


lemma fail_batch_Inr:
  "fail_batch ks i b failed = Inr f' \<Longrightarrow> f' = failed @ take (length b) (drop i ks)"
proof (induction b arbitrary: i failed)
  case Nil
  then show ?case by simp
next
  case (Cons src rest)
  from Cons.prems have i: "i < length ks"
    by (auto simp: at_def split: if_splits)
  with Cons.prems have "fail_batch ks (i + 1) rest (failed @ [ks ! i]) = Inr f'"
    by (simp add: at_def)
  from Cons.IH [OF this] i show ?case
    by (simp add: Cons_nth_drop_Suc [symmetric])
qed

lemma fail_batch_total:
  "i + length b \<le> length ks \<Longrightarrow> \<exists>f'. fail_batch ks i b failed = Inr f'"
  by (induction b arbitrary: i failed) (auto simp: at_def)

lemma store_results_frame:
  "store_results i rs s = Inr s' \<Longrightarrow>
     batch s' = batch s \<and> keys s' = keys s \<and> calls s' = calls s \<and> gpt s' = gpt s
     \<and> count s' = count s \<and> translatedCount s' = translatedCount s
     \<and> (\<exists>fs. failedKeys s' = failedKeys s @ fs \<and> set fs \<subseteq> set (keys s))
     \<and> (\<forall>k. k \<notin> set (keys s) \<longrightarrow> target s' k = target s k)
     \<and> dom (target s) \<subseteq> dom (target s')"
proof (induction rs arbitrary: i s)
  case Nil
  then show ?case by simp
next
  case (Cons result rest)
  from Cons.prems have i: "i < length (keys s)"
    by (auto simp: at_def split: if_splits)
  let ?k = "keys s ! i"
  let ?s1 = "if blank result then s\<lparr>failedKeys := failedKeys s @ [?k]\<rparr>
             else s\<lparr>target := (target s)(?k \<mapsto> result)\<rparr>"
  have "store_results (i + 1) rest ?s1 = Inr s'"
    using Cons.prems i by (auto simp: at_def split: if_splits sum.splits)
  from Cons.IH [OF this] obtain fs where
    ih: "batch s' = batch ?s1" "keys s' = keys ?s1" "calls s' = calls ?s1" "gpt s' = gpt ?s1"
        "count s' = count ?s1" "translatedCount s' = translatedCount ?s1"
        "failedKeys s' = failedKeys ?s1 @ fs" "set fs \<subseteq> set (keys ?s1)"
        "\<forall>k. k \<notin> set (keys ?s1) \<longrightarrow> target s' k = target ?s1 k"
        "dom (target ?s1) \<subseteq> dom (target s')"
    by blast
  have k: "?k \<in> set (keys s)" using i by simp
  have d: "dom (target s) \<subseteq> dom (target ?s1)" by auto
  have f: "\<exists>fs'. failedKeys s' = failedKeys s @ fs' \<and> set fs' \<subseteq> set (keys s)"
    using ih(7,8) k by (cases "blank result") auto
  have t: "\<forall>k. k \<notin> set (keys s) \<longrightarrow> target s' k = target s k"
    using ih(9) k by (cases "blank result") auto
  have r: "batch s' = batch s \<and> keys s' = keys s \<and> calls s' = calls s \<and> gpt s' = gpt s
     \<and> count s' = count s \<and> translatedCount s' = translatedCount s"
    using ih(1-6) by (cases "blank result") auto
  show ?case using r f t subset_trans [OF d ih(10)] by blast
qed

lemma store_results_total:
  "i + length rs \<le> length (keys s) \<Longrightarrow> length (keys s) = length (batch s) \<Longrightarrow>
     \<exists>s'. store_results i rs s = Inr s'"
proof (induction rs arbitrary: i s)
  case Nil
  then show ?case by simp
next
  case (Cons result rest)
  then show ?case by (auto simp: at_def)
qed

lemma sendBatch_empty [simp]: "batch s = [] \<Longrightarrow> sendBatch E lang s = Inr (None, s)"
  by (simp add: sendBatch_def)

lemma sendBatch_frame:
  assumes "sendBatch E lang s = Inr (err, s')"
  shows "count s' = count s \<and> translatedCount s' = translatedCount s
     \<and> (calls s' = calls s \<and> batch s = [] \<or> calls s' = calls s @ [(keys s, batch s)])
     \<and> (\<exists>fs. failedKeys s' = failedKeys s @ fs \<and> set fs \<subseteq> set (keys s))
     \<and> (\<forall>k. k \<notin> set (keys s) \<longrightarrow> target s' k = target s k)
     \<and> dom (target s) \<subseteq> dom (target s')
     \<and> (keys s' = keys s \<and> batch s' = batch s \<or> keys s' = [] \<and> batch s' = [])"
proof (cases "batch s = []")
  case True
  then show ?thesis using assms by simp
next
  case False
  obtain r w' where g: "gptBatchTranslate E (gpt s) (batch s) lang = (r, w')"
    by (cases "gptBatchTranslate E (gpt s) (batch s) lang")
  let ?s1 = "s\<lparr>gpt := w', calls := calls s @ [(keys s, batch s)]\<rparr>"
  show ?thesis
  proof (cases r)
    case (Inl e)
    then obtain f' where f: "fail_batch (keys s) 0 (batch s) (failedKeys s) = Inr f'"
      and s': "s' = ?s1\<lparr>failedKeys := f'\<rparr>"
      using assms False g by (auto simp: sendBatch_def Let_def split: sum.splits)
    from fail_batch_Inr [OF f] have "f' = failedKeys s @ take (length (batch s)) (keys s)"
      by simp
    moreover have "set (take (length (batch s)) (keys s)) \<subseteq> set (keys s)"
      by (rule set_take_subset)
    ultimately show ?thesis using s' by auto
  next
    case (Inr rs)
    then obtain s2 where st: "store_results 0 rs ?s1 = Inr s2"
      and s': "s' = s2\<lparr>batch := [], keys := []\<rparr>"
      using assms False g by (auto simp: sendBatch_def Let_def split: sum.splits)
    from store_results_frame [OF st] s' show ?thesis by auto
  qed
qed

lemma sendBatch_total:
  assumes "same_length E" "length (keys s) = length (batch s)"
  shows "\<exists>err s'. sendBatch E lang s = Inr (err, s')"
proof (cases "batch s = []")
  case True
  then show ?thesis by simp
next
  case False
  obtain r w' where g: "gptBatchTranslate E (gpt s) (batch s) lang = (r, w')"
    by (cases "gptBatchTranslate E (gpt s) (batch s) lang")
  let ?s1 = "s\<lparr>gpt := w', calls := calls s @ [(keys s, batch s)]\<rparr>"
  show ?thesis
  proof (cases r)
    case (Inl e)
    obtain f' where "fail_batch (keys s) 0 (batch s) (failedKeys s) = Inr f'"
      using fail_batch_total [of 0 "batch s" "keys s"] assms(2) by auto
    then show ?thesis using False g Inl by (simp add: sendBatch_def)
  next
    case (Inr rs)
    then have "length rs = length (batch s)"
      using assms(1) g unfolding same_length_def by blast
    then obtain s2 where "store_results 0 rs ?s1 = Inr s2"
      using store_results_total [of 0 rs ?s1] assms(2) by auto
    then show ?thesis using False g Inr by (simp add: sendBatch_def)
  qed
qed

lemma batch_step_empty [simp]: "batch_step E lang bs mode indep mk k [] s = Inr s"
  by (simp add: batch_step_def)

lemma batch_step_skip:
  "v \<noteq> [] \<Longrightarrow> \<not> batch_need E mode indep mk (target s) k v \<Longrightarrow>
   batch_step E lang bs mode indep mk k v s
     = Inr (s\<lparr>target := override indep (target s) k, count := count s + 1\<rparr>)"
  by (simp add: batch_step_def batch_decide_closed)

text \<open>The variables when a key has been put on the batch, before a flush.\<close>

lemma batch_step_select:
  assumes "v \<noteq> []" "batch_need E mode indep mk (target s) k v"
  shows "batch_step E lang bs mode indep mk k v s
     = (let s2 = s\<lparr>target := override indep (target s) k, batch := batch s @ [v],
                    keys := keys s @ [k], translatedCount := translatedCount s + 1\<rparr>
        in if int (length (batch s2)) \<ge> bs
           then (case sendBatch E lang s2 of
                   Inl p \<Rightarrow> Inl p
                 | Inr (err, s3) \<Rightarrow> Inr (s3\<lparr>count := count s3 + 1\<rparr>))
           else Inr (s2\<lparr>count := count s2 + 1\<rparr>))"
  using assms
  by (auto simp: batch_step_def batch_decide_closed Let_def split: sum.splits prod.splits)

lemma batch_step_frame:
  assumes "batch_step E lang bs mode indep mk k v s = Inr s'"
  shows "(\<exists>fs. failedKeys s' = failedKeys s @ fs \<and> set fs \<subseteq> set (keys s) \<union> {k})
     \<and> set (keys s') \<subseteq> set (keys s) \<union> {k}
     \<and> set (called_keys s') \<subseteq> set (called_keys s) \<union> set (keys s) \<union> {k}
     \<and> (\<forall>k'. k' \<noteq> k \<and> k' \<notin> set (keys s) \<longrightarrow> target s' k' = target s k')
     \<and> dom (target s) \<subseteq> dom (target s')
     \<and> (length (keys s) = length (batch s) \<longrightarrow> length (keys s') = length (batch s'))"
proof (cases "v = []")
  case True
  then show ?thesis using assms by auto
next
  case False
  show ?thesis
  proof (cases "batch_need E mode indep mk (target s) k v")
    case False
    with \<open>v \<noteq> []\<close> assms
    have "s' = s\<lparr>target := override indep (target s) k, count := count s + 1\<rparr>"
      by (simp add: batch_step_skip)
    then show ?thesis by (auto simp: override_other called_keys_def)
  next
    case True
    let ?s2 = "s\<lparr>target := override indep (target s) k, batch := batch s @ [v],
                    keys := keys s @ [k], translatedCount := translatedCount s + 1\<rparr>"
    show ?thesis
    proof (cases "int (length (batch ?s2)) \<ge> bs")
      case False
      then have "s' = ?s2\<lparr>count := count ?s2 + 1\<rparr>"
        using assms \<open>v \<noteq> []\<close> True by (simp add: batch_step_select Let_def)
      then show ?thesis by (auto simp: override_other called_keys_def)
    next
      case flush: True
      then obtain err s3 where sb: "sendBatch E lang ?s2 = Inr (err, s3)"
        and s': "s' = s3\<lparr>count := count s3 + 1\<rparr>"
        using assms \<open>v \<noteq> []\<close> True
        by (auto simp: batch_step_select Let_def split: sum.splits)
      from sendBatch_frame [OF sb] obtain fs where
        f: "calls s3 = calls ?s2 \<and> batch ?s2 = [] \<or> calls s3 = calls ?s2 @ [(keys ?s2, batch ?s2)]"
           "failedKeys s3 = failedKeys ?s2 @ fs" "set fs \<subseteq> set (keys ?s2)"
           "\<forall>k'. k' \<notin> set (keys ?s2) \<longrightarrow> target s3 k' = target ?s2 k'"
           "dom (target ?s2) \<subseteq> dom (target s3)"
           "keys s3 = keys ?s2 \<and> batch s3 = batch ?s2 \<or> keys s3 = [] \<and> batch s3 = []"
        by blast
      have c: "set (called_keys s') \<subseteq> set (called_keys s) \<union> set (keys s) \<union> {k}"
        using f(1) s' by (auto simp: called_keys_def)
      have t: "\<forall>k'. k' \<noteq> k \<and> k' \<notin> set (keys s) \<longrightarrow> target s' k' = target s k'"
        using f(4) s' by (auto simp: override_other)
      have d: "dom (target s) \<subseteq> dom (target s')"
        using f(5) s' by simp
      show ?thesis using f(2,3,6) s' c t d by auto
    qed
  qed
qed

lemma batch_step_total:
  assumes "same_length E" "length (keys s) = length (batch s)"
  shows "\<exists>s'. batch_step E lang bs mode indep mk k v s = Inr s'"
proof (cases "v \<noteq> [] \<and> batch_need E mode indep mk (target s) k v")
  case False
  then show ?thesis by (cases "v = []") (auto simp: batch_step_skip)
next
  case True
  let ?s2 = "s\<lparr>target := override indep (target s) k, batch := batch s @ [v],
                    keys := keys s @ [k], translatedCount := translatedCount s + 1\<rparr>"
  obtain err s3 where "sendBatch E lang ?s2 = Inr (err, s3)"
    using sendBatch_total [OF assms(1), of ?s2 lang] assms(2) by auto
  then show ?thesis using True by (simp add: batch_step_select Let_def)
qed

lemma batch_loop_rule:
  assumes "batch_loop E lang bs mode indep mk source ks s = Inr s'" "P s"
    and "\<And>k v s s'. k \<in> set ks \<Longrightarrow> source k = Some v \<Longrightarrow> P s \<Longrightarrow>
           batch_step E lang bs mode indep mk k v s = Inr s' \<Longrightarrow> P s'"
  shows "P s'"
  using assms
proof (induction ks arbitrary: s)
  case Nil
  then show ?case by simp
next
  case (Cons k ks)
  have step: "\<And>k' v s s'. k' \<in> set ks \<Longrightarrow> source k' = Some v \<Longrightarrow> P s \<Longrightarrow>
           batch_step E lang bs mode indep mk k' v s = Inr s' \<Longrightarrow> P s'"
    using Cons.prems(3) by (meson list.set_intros(2))
  show ?case
  proof (cases "source k")
    case None
    then show ?thesis using Cons.IH [OF _ Cons.prems(2) step] Cons.prems(1) by simp
  next
    case (Some v)
    then obtain s1 where s1: "batch_step E lang bs mode indep mk k v s = Inr s1"
      and rest: "batch_loop E lang bs mode indep mk source ks s1 = Inr s'"
      using Cons.prems(1) by (auto split: sum.splits)
    have "P s1" using Cons.prems(3) [OF _ Some Cons.prems(2) s1] by simp
    then show ?thesis using Cons.IH [OF rest _ step] by simp
  qed
qed

lemma batch_loop_total:
  assumes "same_length E" "length (keys s) = length (batch s)"
  shows "\<exists>s'. batch_loop E lang bs mode indep mk source ks s = Inr s'
               \<and> length (keys s') = length (batch s')"
  using assms(2)
proof (induction ks arbitrary: s)
  case Nil
  then show ?case by simp
next
  case (Cons k ks)
  show ?case
  proof (cases "source k")
    case None
    then show ?thesis using Cons.IH [OF Cons.prems] by simp
  next
    case (Some v)
    obtain s1 where s1: "batch_step E lang bs mode indep mk k v s = Inr s1"
      using batch_step_total [OF assms(1) Cons.prems] by blast
    have "length (keys s1) = length (batch s1)"
      using batch_step_frame [OF s1] Cons.prems by simp
    from Cons.IH [OF this] show ?thesis using Some s1 by simp
  qed
qed

lemma batch_process_total:
  assumes "same_length E"
  shows "\<exists>r. batch_process E source tfile indep bs mode ks w = Inr r"
proof -
  have "length (keys (start source tfile w)) = length (batch (start source tfile w))"
    by (simp add: start_def)
  from batch_loop_total [OF assms this]
  obtain s' where l: "batch_loop E (Lang tfile) bs mode indep
             (findMissingKeys (LocaleItemsMap source) (LocaleItemsMap tfile))
             (LocaleItemsMap source) ks (start source tfile w) = Inr s'"
    and len: "length (keys s') = length (batch s')"
    by blast
  obtain err s'' where "sendBatch E (Lang tfile) s' = Inr (err, s'')"
    using sendBatch_total [OF assms len] by blast
  then show ?thesis using l by (simp add: batch_process_def)
qed

section \<open>Rules for the two loops\<close>


lemma single_loop_rule2:
  assumes "P ks s"
    and "\<And>k rest v s s'. source k = Some v \<Longrightarrow> P (k # rest) s \<Longrightarrow>
           single_step E lang mode indep mk k v s = Inr s' \<Longrightarrow> P rest s'"
    and "\<And>k rest s. source k = None \<Longrightarrow> P (k # rest) s \<Longrightarrow> P rest s"
  shows "\<exists>s'. single_loop E lang mode indep mk source ks s = Inr s' \<and> P [] s'"
  using assms(1)
proof (induction ks arbitrary: s)
  case Nil
  then show ?case by simp
next
  case (Cons k ks)
  show ?case
  proof (cases "source k")
    case None
    then show ?thesis using Cons.IH [OF assms(3) [OF None Cons.prems]] by simp
  next
    case (Some v)
    obtain s1 where s1: "single_step E lang mode indep mk k v s = Inr s1"
      using single_step_total by blast
    from Cons.IH [OF assms(2) [OF Some Cons.prems s1]] show ?thesis using Some s1 by simp
  qed
qed

lemma batch_loop_rule2:
  assumes "batch_loop E lang bs mode indep mk source ks s = Inr s'" "P ks s"
    and "\<And>k rest v s s'. source k = Some v \<Longrightarrow> P (k # rest) s \<Longrightarrow>
           batch_step E lang bs mode indep mk k v s = Inr s' \<Longrightarrow> P rest s'"
    and "\<And>k rest s. source k = None \<Longrightarrow> P (k # rest) s \<Longrightarrow> P rest s"
  shows "P [] s'"
  using assms(1,2)
proof (induction ks arbitrary: s)
  case Nil
  then show ?case by simp
next
  case (Cons k ks)
  show ?case
  proof (cases "source k")
    case None
    then show ?thesis using Cons.IH [OF _ assms(4) [OF None Cons.prems(2)]] Cons.prems(1) by simp
  next
    case (Some v)
    then obtain s1 where s1: "batch_step E lang bs mode indep mk k v s = Inr s1"
      and rest: "batch_loop E lang bs mode indep mk source ks s1 = Inr s'"
      using Cons.prems(1) by (auto split: sum.splits)
    from Cons.IH [OF rest assms(3) [OF Some Cons.prems(2) s1]] show ?thesis .
  qed
qed

text \<open>The end of \<open>batch_process\<close> in terms of the loop and the last flush.\<close>

lemma batch_process_Inr:
  assumes "batch_process E source tfile indep bs mode ks w = Inr r"
  obtains s err s' where
    "batch_loop E (Lang tfile) bs mode indep
       (findMissingKeys (LocaleItemsMap source) (LocaleItemsMap tfile))
       (LocaleItemsMap source) ks (start source tfile w) = Inr s"
    "sendBatch E (Lang tfile) s = Inr (err, s')"
    "r = finish E tfile (len (LocaleItemsMap source)) (int (translatedCount s') - int (length (failedKeys s'))) s'"
proof -
  from assms obtain s where l: "batch_loop E (Lang tfile) bs mode indep
       (findMissingKeys (LocaleItemsMap source) (LocaleItemsMap tfile))
       (LocaleItemsMap source) ks (start source tfile w) = Inr s"
    by (auto simp: batch_process_def split: sum.splits)
  show thesis
  proof (cases "batch s = []")
    case True
    then have "sendBatch E (Lang tfile) s = Inr (None, s)" by simp
    moreover have "r = finish E tfile (len (LocaleItemsMap source))
        (int (translatedCount s) - int (length (failedKeys s))) s"
      using assms l True by (simp add: batch_process_def)
    ultimately show thesis using that l by blast
  next
    case False
    then obtain err s' where "sendBatch E (Lang tfile) s = Inr (err, s')"
      and "r = finish E tfile (len (LocaleItemsMap source))
        (int (translatedCount s') - int (length (failedKeys s'))) s'"
      using assms l by (auto simp: batch_process_def split: sum.splits)
    then show thesis using that l by blast
  qed
qed


lemma called_keys_frame:
  "calls s' = calls s @ cs \<Longrightarrow> \<forall>c\<in>set cs. fst c = [k] \<Longrightarrow>
     set (called_keys s') \<subseteq> set (called_keys s) \<union> {k}"
  by (auto simp: called_keys_def)


section \<open>Running the model on concrete inputs\<close>

text \<open>The definitions that the simplifier unfolds to run a call.\<close>


lemmas run_defs =
  single_process_def batch_process_def start_def finish_def init_missing_def
  findMissingKeys_def single_step_def batch_step_def single_decide_def batch_decide_def
  single_translate_def json_array_def sendBatch_def lookup_def at_def blank_def
  HasPrefix_def HasSuffix_def doc_def called_keys_def len_def


lemma same_length_disk_env: "same_length disk_env"
  by (auto simp: same_length_def disk_env_def)

section \<open>The sentinel test, and keys with an empty source value\<close>


text \<open>
  Claim C10. The test of the first character of a target value never reads outside
  the value: the decision block of either strategy ends without a panic on every
  input, and so does the whole of \<open>single_process\<close>.
\<close>

theorem sentinel_index_in_bounds:
  "single_decide mode indep missingKeys tgt k \<noteq> Inl p
   \<and> batch_decide E mode indep missingKeys tgt k v \<noteq> Inl p
   \<and> single_process E source tfile indep mode ks w \<noteq> Inl p"
  using single_process_total [of E source tfile indep mode ks w]
  by (auto simp: single_decide_closed batch_decide_closed)

subsection \<open>Keys with an empty source value\<close>

lemma init_missing_empty_source:
  "src k = Some [] \<Longrightarrow>
   init_missing (findMissingKeys src tgt) src tgt k
     = (case tgt k of None \<Rightarrow> Some [] | Some t \<Rightarrow> Some t)"
  by (simp add: init_missing_apply split: option.splits)

lemma single_loop_empty_source:
  assumes "source k = Some []"
  shows "\<exists>s'. single_loop E lang mode indep mk source ks s = Inr s'
           \<and> target s' k = target s k
           \<and> (k \<notin> set (called_keys s) \<longrightarrow> k \<notin> set (called_keys s'))"
proof -
  let ?P = "\<lambda>(rest :: string list) s'. target s' k = target s k
              \<and> (k \<notin> set (called_keys s) \<longrightarrow> k \<notin> set (called_keys s'))"
  have "\<exists>s'. single_loop E lang mode indep mk source ks s = Inr s' \<and> ?P [] s'"
  proof (rule single_loop_rule2 [where P = ?P])
    show "?P ks s" by simp
  next
    fix k' rest v s1 s2
    assume v: "source k' = Some v" and p: "?P (k' # rest) s1"
      and st: "single_step E lang mode indep mk k' v s1 = Inr s2"
    show "?P rest s2"
    proof (cases "k' = k")
      case True
      then have "s2 = s1" using v st assms by simp
      then show ?thesis using p by simp
    next
      case False
      from single_step_frame [OF st] obtain cs where
        "calls s2 = calls s1 @ cs" "\<forall>c\<in>set cs. fst c = [k']"
        "\<forall>k''. k'' \<noteq> k' \<longrightarrow> target s2 k'' = target s1 k''"
        by blast
      then show ?thesis using p False called_keys_frame [of s2 s1 cs k'] by auto
    qed
  next
    fix k' rest s1
    assume "?P (k' # rest) s1"
    then show "?P rest s1" by simp
  qed
  then show ?thesis by simp
qed

lemma batch_loop_empty_source:
  assumes "source k = Some []"
    and "batch_loop E lang bs mode indep mk source ks s = Inr s'"
    and "k \<notin> set (keys s)" "k \<notin> set (called_keys s)"
  shows "target s' k = target s k \<and> k \<notin> set (called_keys s') \<and> k \<notin> set (keys s')"
proof -
  let ?P = "\<lambda>(rest :: string list) s'. target s' k = target s k
              \<and> k \<notin> set (called_keys s') \<and> k \<notin> set (keys s')"
  have "?P [] s'"
  proof (rule batch_loop_rule2 [where P = ?P, OF assms(2)])
    show "?P ks s" using assms(3,4) by simp
  next
    fix k' rest v s1 s2
    assume v: "source k' = Some v" and p: "?P (k' # rest) s1"
      and st: "batch_step E lang bs mode indep mk k' v s1 = Inr s2"
    show "?P rest s2"
    proof (cases "k' = k")
      case True
      then have "s2 = s1" using v st assms(1) by simp
      then show ?thesis using p by simp
    next
      case False
      from batch_step_frame [OF st] have
        "set (keys s2) \<subseteq> set (keys s1) \<union> {k'}"
        "set (called_keys s2) \<subseteq> set (called_keys s1) \<union> set (keys s1) \<union> {k'}"
        "\<forall>k''. k'' \<noteq> k' \<and> k'' \<notin> set (keys s1) \<longrightarrow> target s2 k'' = target s1 k''"
        by blast+
      then show ?thesis using p False by auto
    qed
  next
    fix k' rest s1
    assume "?P (k' # rest) s1"
    then show "?P rest s1" by simp
  qed
  then show ?thesis by simp
qed

lemma sendBatch_called_keys:
  "sendBatch E lang s = Inr (err, s') \<Longrightarrow>
     set (called_keys s') \<subseteq> set (called_keys s) \<union> set (keys s)"
proof -
  assume "sendBatch E lang s = Inr (err, s')"
  from sendBatch_frame [OF this]
  have "calls s' = calls s \<or> calls s' = calls s @ [(keys s, batch s)]" by blast
  then show ?thesis by (auto simp: called_keys_def)
qed

text \<open>
  Claim C2, as amended. For a key whose source value is the empty string no call
  of the handler is issued, under either strategy, in any mode, with or without an
  override. An entry that the target map holds for the key is left as it is; when the
  target map holds none, the key gets the empty string. When the call returns no
  error, the serialiser was given the target document with this final map, and what
  it returned was written to the path of the target document.
\<close>

theorem empty_source_untouched:
  assumes "LocaleItemsMap source k = Some []"
  shows "(\<exists>r. single_process E source tfile indep mode ks w = Inr r
            \<and> target (final r) k
                = (case LocaleItemsMap tfile k of None \<Rightarrow> Some [] | Some t \<Rightarrow> Some t)
            \<and> k \<notin> set (called_keys (final r))
            \<and> (returned r = None \<longrightarrow>
                 (\<exists>buf w'. JSON E (tfile\<lparr>LocaleItemsMap := target (final r)\<rparr>) = Inr buf
                    \<and> WriteFile E w' (Path tfile) buf = (None, gpt (final r)))))
       \<and> (same_length E \<longrightarrow>
           (\<exists>r. batch_process E source tfile indep batchSize mode ks w = Inr r
              \<and> target (final r) k
                  = (case LocaleItemsMap tfile k of None \<Rightarrow> Some [] | Some t \<Rightarrow> Some t)
              \<and> k \<notin> set (called_keys (final r))
              \<and> (returned r = None \<longrightarrow>
                   (\<exists>buf w'. JSON E (tfile\<lparr>LocaleItemsMap := target (final r)\<rparr>) = Inr buf
                      \<and> WriteFile E w' (Path tfile) buf = (None, gpt (final r))))))"
proof (intro conjI impI)
  let ?t0 = "case LocaleItemsMap tfile k of None \<Rightarrow> Some [] | Some t \<Rightarrow> Some t"
  let ?mk = "findMissingKeys (LocaleItemsMap source) (LocaleItemsMap tfile)"
  let ?s0 = "start source tfile w"
  let ?W = "\<lambda>r. returned r = None \<longrightarrow>
                 (\<exists>buf w'. JSON E (tfile\<lparr>LocaleItemsMap := target (final r)\<rparr>) = Inr buf
                    \<and> WriteFile E w' (Path tfile) buf = (None, gpt (final r)))"
  have t0: "target ?s0 k = ?t0"
    using assms by (simp add: init_missing_empty_source)
  have c0: "k \<notin> set (called_keys ?s0)" by (simp add: called_keys_def)
  have fw: "?W (finish E tfile n tr s)" for n tr s
    using finish_written [of E tfile n tr s] by (simp add: finish_final)
  {
    obtain s' where l: "single_loop E (Lang tfile) mode indep ?mk (LocaleItemsMap source) ks ?s0 = Inr s'"
      and t: "target s' k = target ?s0 k" and c: "k \<notin> set (called_keys s')"
      using single_loop_empty_source [where source = "LocaleItemsMap source" and k = k
               and s = ?s0 and ks = ks and E = E and lang = "Lang tfile" and mode = mode
               and indep = indep and mk = ?mk, OF assms] c0
      by blast
    let ?r = "finish E tfile (len (LocaleItemsMap source)) (int (translatedCount s')) s'"
    have "single_process E source tfile indep mode ks w = Inr ?r"
      using l by (simp add: single_process_def)
    moreover have "target (final ?r) k = ?t0" using t t0 by (simp add: finish_final)
    moreover have "k \<notin> set (called_keys (final ?r))" using c by (simp add: finish_final)
    ultimately show "\<exists>r. single_process E source tfile indep mode ks w = Inr r
            \<and> target (final r) k = ?t0 \<and> k \<notin> set (called_keys (final r)) \<and> ?W r"
      using fw by blast
  }
  {
    assume "same_length E"
    from batch_process_total [OF this, of source tfile indep batchSize mode ks w]
    obtain r where r: "batch_process E source tfile indep batchSize mode ks w = Inr r"
      by blast
    from batch_process_Inr [OF r] obtain s err s' where
      l: "batch_loop E (Lang tfile) batchSize mode indep ?mk (LocaleItemsMap source) ks ?s0 = Inr s"
      and sb: "sendBatch E (Lang tfile) s = Inr (err, s')"
      and fin: "r = finish E tfile (len (LocaleItemsMap source))
                      (int (translatedCount s') - int (length (failedKeys s'))) s'"
      by blast
    have k0: "k \<notin> set (keys ?s0)" by simp
    from batch_loop_empty_source [where source = "LocaleItemsMap source" and k = k,
            OF assms l k0 c0]
    have s: "target s k = target ?s0 k" "k \<notin> set (called_keys s)" "k \<notin> set (keys s)"
      by simp_all
    have "target s' k = target s k"
      using sendBatch_frame [OF sb] s(3) by blast
    then have "target (final r) k = ?t0" using fin s(1) t0 by (simp add: finish_final)
    moreover have "k \<notin> set (called_keys s')"
      using sendBatch_called_keys [OF sb] s(2,3) by blast
    then have "k \<notin> set (called_keys (final r))" using fin by (simp add: finish_final)
    moreover have "?W r" unfolding fin by (rule fw)
    ultimately show "\<exists>r. batch_process E source tfile indep batchSize mode ks w = Inr r
            \<and> target (final r) k = ?t0 \<and> k \<notin> set (called_keys (final r)) \<and> ?W r"
      using r by (intro exI [of _ r] conjI)
  }
qed

text \<open>
  The claim as it stands fails: a key with an empty source value that the target map
  does not hold is in the target map after the call, with the empty string.
\<close>

theorem empty_source_counterexample:
  "\<not> isl (single_process prefix_env (doc ''en'' ''English'' [''a'' \<mapsto> ''''])
             (doc ''fr'' ''French'' Map.empty) None ''full'' [''a''] 0)
   \<and> LocaleItemsMap (doc ''fr'' ''French'' Map.empty) ''a'' = None
   \<and> target (final (projr (single_process prefix_env (doc ''en'' ''English'' [''a'' \<mapsto> ''''])
             (doc ''fr'' ''French'' Map.empty) None ''full'' [''a''] 0))) ''a'' = Some ''''"
  by (simp add: run_defs prefix_env_def)

theorem empty_source_untouched_witness:
  "LocaleItemsMap (doc ''en'' ''English'' [''a'' \<mapsto> '''', ''b'' \<mapsto> ''Hello'']) ''a'' = Some []
   \<and> same_length disk_env
   \<and> target (final (projr (single_process disk_env
         (doc ''en'' ''English'' [''a'' \<mapsto> '''', ''b'' \<mapsto> ''Hello''])
         (doc ''fr'' ''French'' [''a'' \<mapsto> ''vieux'']) None ''full'' [''a'', ''b''] Map.empty))) ''a''
        = Some ''vieux''
   \<and> returned (projr (single_process disk_env
         (doc ''en'' ''English'' [''a'' \<mapsto> '''', ''b'' \<mapsto> ''Hello''])
         (doc ''fr'' ''French'' [''a'' \<mapsto> ''vieux'']) None ''full'' [''a'', ''b''] Map.empty)) = None
   \<and> gpt (final (projr (single_process disk_env
         (doc ''en'' ''English'' [''a'' \<mapsto> '''', ''b'' \<mapsto> ''Hello''])
         (doc ''fr'' ''French'' [''a'' \<mapsto> ''vieux'']) None ''full'' [''a'', ''b''] Map.empty)))
       ''fr.json'' = Some ''{a: vieux}''
   \<and> ''a'' \<notin> set (called_keys (final (projr (batch_process disk_env
         (doc ''en'' ''English'' [''a'' \<mapsto> '''', ''b'' \<mapsto> ''Hello''])
         (doc ''fr'' ''French'' Map.empty) None 2 ''full'' [''a'', ''b''] Map.empty))))
   \<and> called_keys (final (projr (batch_process disk_env
         (doc ''en'' ''English'' [''a'' \<mapsto> '''', ''b'' \<mapsto> ''Hello''])
         (doc ''fr'' ''French'' Map.empty) None 2 ''full'' [''a'', ''b''] Map.empty)))
        = [''b'']
   \<and> returned (projr (batch_process disk_env
         (doc ''en'' ''English'' [''a'' \<mapsto> '''', ''b'' \<mapsto> ''Hello''])
         (doc ''fr'' ''French'' Map.empty) None 2 ''full'' [''a'', ''b''] Map.empty)) = None
   \<and> gpt (final (projr (batch_process disk_env
         (doc ''en'' ''English'' [''a'' \<mapsto> '''', ''b'' \<mapsto> ''Hello''])
         (doc ''fr'' ''French'' Map.empty) None 2 ''full'' [''a'', ''b''] Map.empty)))
       ''fr.json'' = Some ''{a: }''"
proof -
  let ?src = "doc ''en'' ''English'' [''a'' \<mapsto> '''', ''b'' \<mapsto> ''Hello'']"
  let ?old = "doc ''fr'' ''French'' [''a'' \<mapsto> ''vieux'']"
  let ?new = "doc ''fr'' ''French'' Map.empty"
  let ?S = "single_process disk_env ?src ?old None ''full'' [''a'', ''b''] Map.empty"
  let ?B = "batch_process disk_env ?src ?new None 2 ''full'' [''a'', ''b''] Map.empty"
  have h: "LocaleItemsMap ?src ''a'' = Some []" by (simp add: doc_def)
  have J: "JSON disk_env f = Inr (case LocaleItemsMap f ''a'' of
                                    None \<Rightarrow> ''{}'' | Some v \<Rightarrow> ''{a: '' @ v @ ''}'')" for f
    by (simp add: disk_env_def)
  have W: "WriteFile disk_env x path content = (None, x(path \<mapsto> content))" for x path content
    by (simp add: disk_env_def)
  have rs: "returned (projr ?S) = None" by (simp add: run_defs disk_env_def)
  have rb: "returned (projr ?B) = None" by (simp add: run_defs disk_env_def)
  have cb: "called_keys (final (projr ?B)) = [''b'']" by (simp add: run_defs disk_env_def)
  from empty_source_untouched [OF h, of disk_env ?old None "''full''" "[''a'', ''b'']" Map.empty,
         THEN conjunct1] rs
  obtain buf w' where
    a: "target (final (projr ?S)) ''a'' = Some ''vieux''"
    and j: "JSON disk_env (?old\<lparr>LocaleItemsMap := target (final (projr ?S))\<rparr>) = Inr buf"
    and wr: "WriteFile disk_env w' (Path ?old) buf = (None, gpt (final (projr ?S)))"
    by (auto simp: doc_def)
  have "buf = ''{a: vieux}''" using j a by (simp add: J)
  moreover have "gpt (final (projr ?S)) = w'(''fr.json'' \<mapsto> buf)"
    using wr by (simp add: W doc_def)
  ultimately have fs: "gpt (final (projr ?S)) ''fr.json'' = Some ''{a: vieux}''" by simp
  from empty_source_untouched [OF h, of disk_env ?new None "''full''" "[''a'', ''b'']" Map.empty 2,
         THEN conjunct2, rule_format, OF same_length_disk_env] rb
  obtain buf2 w2 where
    b: "target (final (projr ?B)) ''a'' = Some ''''"
    and nb: "''a'' \<notin> set (called_keys (final (projr ?B)))"
    and j2: "JSON disk_env (?new\<lparr>LocaleItemsMap := target (final (projr ?B))\<rparr>) = Inr buf2"
    and wr2: "WriteFile disk_env w2 (Path ?new) buf2 = (None, gpt (final (projr ?B)))"
    by (auto simp: doc_def)
  have "buf2 = ''{a: }''" using j2 b by (simp add: J)
  moreover have "gpt (final (projr ?B)) = w2(''fr.json'' \<mapsto> buf2)"
    using wr2 by (simp add: W doc_def)
  ultimately have fb: "gpt (final (projr ?B)) ''fr.json'' = Some ''{a: }''" by simp
  show ?thesis using h same_length_disk_env a rs fs nb cb rb fb by blast
qed

section \<open>Overrides, the second run, and the summary\<close>


subsection \<open>Runs in which no key is selected\<close>

lemma override_at:
  "override indep tgt k k
     = (case indep of
          None \<Rightarrow> tgt k
        | Some i \<Rightarrow> (case LocaleItemsMap i k of
                       None \<Rightarrow> tgt k
                     | Some v \<Rightarrow> if tgt k = None then None else Some v))"
  by (auto simp: override_def split: option.splits)

lemma override_at_cong: "t' x = t x \<Longrightarrow> override indep t' x x = override indep t x x"
  by (auto simp: override_def split: option.splits)

lemma override_override:
  "override indep (override indep tgt k') k k = override indep tgt k k"
  by (cases "k = k'") (auto simp: override_at override_other split: option.splits)

lemma no_selection_single:
  "no_selection mode indep mk \<Longrightarrow> tgt k \<noteq> None \<Longrightarrow> \<not> single_need mode indep mk tgt k"
  by (auto simp: no_selection_def single_need_def)

lemma no_selection_batch:
  "no_selection mode indep mk \<Longrightarrow> tgt k \<noteq> None \<Longrightarrow> \<not> batch_need E mode indep mk tgt k v"
  by (auto simp: no_selection_def batch_need_def)

lemma overridden_Nil [simp]: "overridden indep source [] tgt = tgt"
  by (simp add: overridden_def)

lemma overridden_Cons_skip:
  "source k = None \<or> source k = Some [] \<Longrightarrow>
     overridden indep source (k # ks) tgt = overridden indep source ks tgt"
  by (rule ext) (auto simp: overridden_def)

lemma overridden_Cons:
  "source k = Some v \<Longrightarrow> v \<noteq> [] \<Longrightarrow>
     overridden indep source (k # ks) tgt = overridden indep source ks (override indep tgt k)"
proof (rule ext)
  fix x
  assume a: "source k = Some v" "v \<noteq> []"
  show "overridden indep source (k # ks) tgt x
          = overridden indep source ks (override indep tgt k) x"
  proof (cases "x = k")
    case True
    then show ?thesis using a by (simp add: overridden_def override_override)
  next
    case False
    then have "override indep tgt k x = tgt x" by (simp add: override_other)
    then have "override indep (override indep tgt k) x x = override indep tgt x x"
      by (rule override_at_cong)
    then show ?thesis using False by (auto simp: overridden_def override_other)
  qed
qed

lemma single_loop_no_selection:
  assumes "no_selection mode indep mk"
  shows "dom source \<subseteq> dom (target s) \<Longrightarrow>
     \<exists>s'. single_loop E lang mode indep mk source ks s = Inr s'
        \<and> calls s' = calls s \<and> failedKeys s' = failedKeys s
        \<and> translatedCount s' = translatedCount s
        \<and> target s' = overridden indep source ks (target s)"
proof (induction ks arbitrary: s)
  case Nil
  then show ?case by simp
next
  case (Cons k ks)
  show ?case
  proof (cases "source k")
    case None
    then show ?thesis using Cons.IH [OF Cons.prems] by (simp add: overridden_Cons_skip)
  next
    case (Some v)
    show ?thesis
    proof (cases "v = []")
      case True
      then show ?thesis using Some Cons.IH [OF Cons.prems] by (simp add: overridden_Cons_skip)
    next
      case False
      have "target s k \<noteq> None" using Some Cons.prems by auto
      then have n: "\<not> single_need mode indep mk (target s) k"
        by (rule no_selection_single [OF assms])
      let ?s1 = "s\<lparr>target := override indep (target s) k, count := count s + 1\<rparr>"
      have st: "single_step E lang mode indep mk k v s = Inr ?s1"
        using False n by (rule single_step_skip)
      have "dom source \<subseteq> dom (target ?s1)" using Cons.prems by simp
      from Cons.IH [OF this] show ?thesis
        using Some st False by (simp add: overridden_Cons)
    qed
  qed
qed

lemma batch_loop_no_selection:
  assumes "no_selection mode indep mk"
  shows "dom source \<subseteq> dom (target s) \<Longrightarrow>
     \<exists>s'. batch_loop E lang bs mode indep mk source ks s = Inr s'
        \<and> calls s' = calls s \<and> failedKeys s' = failedKeys s
        \<and> translatedCount s' = translatedCount s
        \<and> batch s' = batch s \<and> keys s' = keys s
        \<and> target s' = overridden indep source ks (target s)"
proof (induction ks arbitrary: s)
  case Nil
  then show ?case by simp
next
  case (Cons k ks)
  show ?case
  proof (cases "source k")
    case None
    then show ?thesis using Cons.IH [OF Cons.prems] by (simp add: overridden_Cons_skip)
  next
    case (Some v)
    show ?thesis
    proof (cases "v = []")
      case True
      then show ?thesis using Some Cons.IH [OF Cons.prems] by (simp add: overridden_Cons_skip)
    next
      case False
      have "target s k \<noteq> None" using Some Cons.prems by auto
      then have n: "\<not> batch_need E mode indep mk (target s) k v"
        by (rule no_selection_batch [OF assms])
      let ?s1 = "s\<lparr>target := override indep (target s) k, count := count s + 1\<rparr>"
      have st: "batch_step E lang bs mode indep mk k v s = Inr ?s1"
        using False n by (rule batch_step_skip)
      have "dom source \<subseteq> dom (target ?s1)" using Cons.prems by simp
      from Cons.IH [OF this] show ?thesis
        using Some st False by (simp add: overridden_Cons)
    qed
  qed
qed

lemma dom_init_missing: "dom src \<subseteq> dom (init_missing (findMissingKeys src tgt) src tgt)"
  by (auto simp: init_missing_apply)

text \<open>What a call leaves when no key is selected.\<close>

lemma single_process_no_selection:
  assumes "no_selection mode indep
             (findMissingKeys (LocaleItemsMap source) (LocaleItemsMap tfile))"
  shows "\<exists>r. single_process E source tfile indep mode ks w = Inr r
           \<and> calls (final r) = []
           \<and> target (final r)
               = overridden indep (LocaleItemsMap source) ks (target (start source tfile w))"
proof -
  have "dom (LocaleItemsMap source) \<subseteq> dom (target (start source tfile w))"
    by (simp add: dom_init_missing)
  from single_loop_no_selection [OF assms this, of E "Lang tfile" ks]
  show ?thesis by (auto simp: single_process_def finish_final)
qed

lemma batch_process_no_selection:
  assumes "no_selection mode indep
             (findMissingKeys (LocaleItemsMap source) (LocaleItemsMap tfile))"
  shows "\<exists>r. batch_process E source tfile indep bs mode ks w = Inr r
           \<and> calls (final r) = []
           \<and> target (final r)
               = overridden indep (LocaleItemsMap source) ks (target (start source tfile w))"
proof -
  have "dom (LocaleItemsMap source) \<subseteq> dom (target (start source tfile w))"
    by (simp add: dom_init_missing)
  from batch_loop_no_selection [OF assms this, of E "Lang tfile" bs ks]
  show ?thesis by (auto simp: batch_process_def finish_final)
qed

text \<open>
  Claim C5. With an override map that holds the key, a source value that is not
  empty and an entry in the target map before the call, the target value after the
  call is the override value and no call of the handler was issued for the key; in
  every mode and under both strategies. (With an override map no call is issued at
  all.)
\<close>

theorem override_wins:
  assumes "indep = Some i" "LocaleItemsMap i k = Some ov"
    and "LocaleItemsMap source k = Some v" "v \<noteq> []"
    and "LocaleItemsMap tfile k \<noteq> None"
    and "k \<in> set ks"
  shows "(\<exists>r. single_process E source tfile indep mode ks w = Inr r
            \<and> target (final r) k = Some ov \<and> k \<notin> set (called_keys (final r)))
       \<and> (\<exists>r. batch_process E source tfile indep batchSize mode ks w = Inr r
            \<and> target (final r) k = Some ov \<and> k \<notin> set (called_keys (final r)))"
proof -
  let ?mk = "findMissingKeys (LocaleItemsMap source) (LocaleItemsMap tfile)"
  let ?t = "overridden indep (LocaleItemsMap source) ks (target (start source tfile w))"
  have n: "no_selection mode indep ?mk" using assms(1) by (simp add: no_selection_def)
  have "target (start source tfile w) k \<noteq> None"
    using assms(5) by (simp add: init_missing_apply)
  then have t: "?t k = Some ov"
    using assms by (simp add: overridden_def override_at)
  from single_process_no_selection [OF n, of E ks w] batch_process_no_selection [OF n, of E batchSize ks w]
  show ?thesis using t by (auto simp: called_keys_def)
qed

subsection \<open>The target map after a call\<close>

lemma single_process_dom:
  assumes "single_process E source tfile indep mode ks w = Inr r"
  shows "dom (LocaleItemsMap source) \<subseteq> dom (target (final r))"
proof -
  let ?D = "dom (LocaleItemsMap source)"
  let ?mk = "findMissingKeys (LocaleItemsMap source) (LocaleItemsMap tfile)"
  have "\<exists>s'. single_loop E (Lang tfile) mode indep ?mk (LocaleItemsMap source) ks
                (start source tfile w) = Inr s' \<and> ?D \<subseteq> dom (target s')"
  proof (rule single_loop_rule [where P = "\<lambda>s. ?D \<subseteq> dom (target s)"])
    show "?D \<subseteq> dom (target (start source tfile w))" by (simp add: dom_init_missing)
  next
    fix k v s s'
    assume "?D \<subseteq> dom (target s)" "single_step E (Lang tfile) mode indep ?mk k v s = Inr s'"
    then show "?D \<subseteq> dom (target s')" using single_step_frame by blast
  qed
  then obtain s' where
    "single_loop E (Lang tfile) mode indep ?mk (LocaleItemsMap source) ks
                (start source tfile w) = Inr s'" "?D \<subseteq> dom (target s')"
    by blast
  moreover from this assms have "target (final r) = target s'"
    by (auto simp: single_process_def finish_final)
  ultimately show ?thesis by simp
qed

lemma batch_process_dom:
  assumes "batch_process E source tfile indep bs mode ks w = Inr r"
  shows "dom (LocaleItemsMap source) \<subseteq> dom (target (final r))"
proof -
  let ?D = "dom (LocaleItemsMap source)"
  let ?mk = "findMissingKeys (LocaleItemsMap source) (LocaleItemsMap tfile)"
  from batch_process_Inr [OF assms] obtain s err s' where
    l: "batch_loop E (Lang tfile) bs mode indep ?mk (LocaleItemsMap source) ks
          (start source tfile w) = Inr s"
    and sb: "sendBatch E (Lang tfile) s = Inr (err, s')"
    and fin: "r = finish E tfile (len (LocaleItemsMap source))
                    (int (translatedCount s') - int (length (failedKeys s'))) s'"
    by blast
  have "?D \<subseteq> dom (target s)"
  proof (rule batch_loop_rule [where P = "\<lambda>s. ?D \<subseteq> dom (target s)", OF l])
    show "?D \<subseteq> dom (target (start source tfile w))" by (simp add: dom_init_missing)
  next
    fix k v s s'
    assume "?D \<subseteq> dom (target s)"
      "batch_step E (Lang tfile) bs mode indep ?mk k v s = Inr s'"
    then show "?D \<subseteq> dom (target s')" using batch_step_frame by blast
  qed
  moreover have "dom (target s) \<subseteq> dom (target s')" using sendBatch_frame [OF sb] by blast
  ultimately have "?D \<subseteq> dom (target s')" by (rule subset_trans)
  then show ?thesis using fin by (simp add: finish_final)
qed

lemma findMissingKeys_empty: "dom src \<subseteq> dom tgt \<Longrightarrow> findMissingKeys src tgt = Map.empty"
  by (rule ext) (auto simp: findMissingKeys_def)

text \<open>
  Claim C8. After a call of either strategy has returned (in any mode, so in missing
  mode), the target map holds every key of the source map: the set of missing keys of
  a second call is empty, and a second call in missing mode on the same source map and
  the target map that the first call left issues no call of the handler, under either
  strategy and whatever the handler would answer.
\<close>

theorem missing_mode_second_run:
  assumes "single_process E source tfile indep mode ks w = Inr r1
           \<or> batch_process E source tfile indep batchSize mode ks w = Inr r1"
    and "LocaleItemsMap tfile2 = target (final r1)"
  shows "findMissingKeys (LocaleItemsMap source) (LocaleItemsMap tfile2) = Map.empty
       \<and> (\<exists>r2. single_process E2 source tfile2 indep2 ''missing'' ks2 w2 = Inr r2
              \<and> calls (final r2) = [])
       \<and> (\<exists>r2. batch_process E2 source tfile2 indep2 batchSize2 ''missing'' ks2 w2 = Inr r2
              \<and> calls (final r2) = [])"
proof -
  have "dom (LocaleItemsMap source) \<subseteq> dom (LocaleItemsMap tfile2)"
    using assms single_process_dom batch_process_dom by metis
  then have e: "findMissingKeys (LocaleItemsMap source) (LocaleItemsMap tfile2) = Map.empty"
    by (rule findMissingKeys_empty)
  then have n: "no_selection ''missing'' indep2
                  (findMissingKeys (LocaleItemsMap source) (LocaleItemsMap tfile2))"
    by (simp add: no_selection_def)
  from single_process_no_selection [OF n, of E2 ks2 w2]
       batch_process_no_selection [OF n, of E2 batchSize2 ks2 w2] e
  show ?thesis by blast
qed


subsection \<open>The theorems above on concrete documents\<close>


theorem override_wins_witness:
  "target (final (projr (single_process prefix_env
       (doc ''en'' ''English'' [''greeting'' \<mapsto> ''Hello''])
       (doc ''fr'' ''French'' [''greeting'' \<mapsto> ''Bonjour''])
       (Some (doc ''custom'' ''French'' [''greeting'' \<mapsto> ''Salut'']))
       ''full'' [''greeting''] 0))) ''greeting'' = Some ''Salut''
   \<and> target (final (projr (batch_process prefix_env
       (doc ''en'' ''English'' [''greeting'' \<mapsto> ''Hello''])
       (doc ''fr'' ''French'' [''greeting'' \<mapsto> ''Bonjour''])
       (Some (doc ''custom'' ''French'' [''greeting'' \<mapsto> ''Salut'']))
       3 ''full'' [''greeting''] 0))) ''greeting'' = Some ''Salut''
   \<and> ''greeting'' \<notin> set (called_keys (final (projr (batch_process prefix_env
       (doc ''en'' ''English'' [''greeting'' \<mapsto> ''Hello''])
       (doc ''fr'' ''French'' [''greeting'' \<mapsto> ''Bonjour''])
       (Some (doc ''custom'' ''French'' [''greeting'' \<mapsto> ''Salut'']))
       3 ''full'' [''greeting''] 0))))"
proof -
  let ?src = "doc ''en'' ''English'' [''greeting'' \<mapsto> ''Hello'']"
  let ?tgt = "doc ''fr'' ''French'' [''greeting'' \<mapsto> ''Bonjour'']"
  let ?i = "doc ''custom'' ''French'' [''greeting'' \<mapsto> ''Salut'']"
  have h: "Some ?i = Some ?i" "LocaleItemsMap ?i ''greeting'' = Some ''Salut''"
    "LocaleItemsMap ?src ''greeting'' = Some ''Hello''" "''Hello'' \<noteq> []"
    "LocaleItemsMap ?tgt ''greeting'' \<noteq> None" "''greeting'' \<in> set [''greeting'']"
    by (simp_all add: doc_def)
  from override_wins [OF h, of prefix_env "''full''" 0 3]
  show ?thesis by auto
qed

theorem missing_mode_second_run_witness:
  "calls (final (projr (single_process prefix_env
       (doc ''en'' ''English'' [''a'' \<mapsto> ''Hello'', ''b'' \<mapsto> ''Goodbye''])
       (doc ''fr'' ''French''
          (target (final (projr (single_process prefix_env
             (doc ''en'' ''English'' [''a'' \<mapsto> ''Hello'', ''b'' \<mapsto> ''Goodbye''])
             (doc ''fr'' ''French'' Map.empty) None ''missing'' [''a'', ''b''] 0)))))
       None ''missing'' [''b'', ''a''] 2))) = []
   \<and> calls (final (projr (batch_process prefix_env
       (doc ''en'' ''English'' [''a'' \<mapsto> ''Hello'', ''b'' \<mapsto> ''Goodbye''])
       (doc ''fr'' ''French''
          (target (final (projr (single_process prefix_env
             (doc ''en'' ''English'' [''a'' \<mapsto> ''Hello'', ''b'' \<mapsto> ''Goodbye''])
             (doc ''fr'' ''French'' Map.empty) None ''missing'' [''a'', ''b''] 0)))))
       None 2 ''missing'' [''b'', ''a''] 2))) = []
   \<and> called_keys (final (projr (single_process prefix_env
             (doc ''en'' ''English'' [''a'' \<mapsto> ''Hello'', ''b'' \<mapsto> ''Goodbye''])
             (doc ''fr'' ''French'' Map.empty) None ''missing'' [''a'', ''b''] 0)))
       = [''a'', ''b'']"
proof -
  let ?src = "doc ''en'' ''English'' [''a'' \<mapsto> ''Hello'', ''b'' \<mapsto> ''Goodbye'']"
  let ?tgt = "doc ''fr'' ''French'' Map.empty"
  let ?run1 = "single_process prefix_env ?src ?tgt None ''missing'' [''a'', ''b''] 0"
  let ?tgt2 = "doc ''fr'' ''French'' (target (final (projr ?run1)))"
  have first: "called_keys (final (projr ?run1)) = [''a'', ''b'']"
    by (simp add: run_defs prefix_env_def)
  have "\<not> isl ?run1"
    using single_process_total [of prefix_env ?src ?tgt None "''missing''" "[''a'', ''b'']" 0]
    by auto
  then have r1: "?run1 = Inr (projr ?run1)" by simp
  have t2: "LocaleItemsMap ?tgt2 = target (final (projr ?run1))" by (simp add: doc_def)
  from missing_mode_second_run [OF disjI1, OF r1 t2,
         of prefix_env None "[''b'', ''a'']" 2 2]
  have "(\<exists>r2. single_process prefix_env ?src ?tgt2 None ''missing'' [''b'', ''a''] 2 = Inr r2
              \<and> calls (final r2) = [])
       \<and> (\<exists>r2. batch_process prefix_env ?src ?tgt2 None 2 ''missing'' [''b'', ''a''] 2 = Inr r2
              \<and> calls (final r2) = [])"
    by blast
  then have "calls (final (projr (single_process prefix_env ?src ?tgt2 None ''missing'' [''b'', ''a''] 2))) = []
    \<and> calls (final (projr (batch_process prefix_env ?src ?tgt2 None 2 ''missing'' [''b'', ''a''] 2))) = []"
    by auto
  then show ?thesis using first by blast
qed



section \<open>The two strategies under one deterministic translator\<close>


lemma deterministic_same_length: "deterministic E t \<Longrightarrow> same_length E"
  unfolding deterministic_def same_length_def by (metis length_map)

lemma need_override_batch:
  "batch_need E mode indep mk tgt k v \<Longrightarrow> override indep tgt k = tgt"
  by (auto simp: batch_need_def override_def split: option.splits)

text \<open>The results of a call that answered, stored from position \<open>i\<close> on.\<close>

lemma store_results_frame_drop:
  "store_results i rs s = Inr s' \<Longrightarrow>
     (\<forall>k. k \<notin> set (drop i (keys s)) \<longrightarrow> target s' k = target s k)
     \<and> set (failedKeys s) \<subseteq> set (failedKeys s')"
proof (induction rs arbitrary: i s)
  case Nil
  then show ?case by simp
next
  case (Cons result rest)
  from Cons.prems have i: "i < length (keys s)"
    by (auto simp: at_def split: if_splits)
  let ?k = "keys s ! i"
  let ?s1 = "if blank result then s\<lparr>failedKeys := failedKeys s @ [?k]\<rparr>
             else s\<lparr>target := (target s)(?k \<mapsto> result)\<rparr>"
  have st: "store_results (i + 1) rest ?s1 = Inr s'"
    using Cons.prems i by (auto simp: at_def split: if_splits sum.splits)
  have d: "drop i (keys s) = ?k # drop (i + 1) (keys s)"
    using i by (simp add: Cons_nth_drop_Suc)
  from Cons.IH [OF st] have
    ih: "\<forall>k. k \<notin> set (drop (i + 1) (keys ?s1)) \<longrightarrow> target s' k = target ?s1 k"
        "set (failedKeys ?s1) \<subseteq> set (failedKeys s')"
    by blast+
  have k1: "keys ?s1 = keys s" by simp
  show ?case
  proof (intro conjI allI impI)
    fix k assume "k \<notin> set (drop i (keys s))"
    then have "k \<noteq> ?k" "k \<notin> set (drop (i + 1) (keys ?s1))" using d k1 by auto
    then show "target s' k = target s k" using ih(1) by (auto split: if_splits)
  next
    show "set (failedKeys s) \<subseteq> set (failedKeys s')" using ih(2) by (auto split: if_splits)
  qed
qed

lemma store_results_det:
  assumes "store_results i rs s = Inr s'"
    and "rs = map t (drop i (batch s))" "batch s = map f (keys s)"
  shows "\<forall>k \<in> set (drop i (keys s)). k \<in> set (failedKeys s') \<or> target s' k = Some (t (f k))"
  using assms
proof (induction rs arbitrary: i s)
  case Nil
  then have "drop i (batch s) = []" by simp
  then have "drop i (keys s) = []" using Nil.prems(3) by (simp add: drop_map)
  then show ?case by simp
next
  case (Cons result rest)
  from Cons.prems(1) have i: "i < length (keys s)"
    by (auto simp: at_def split: if_splits)
  let ?k = "keys s ! i"
  let ?s1 = "if blank result then s\<lparr>failedKeys := failedKeys s @ [?k]\<rparr>
             else s\<lparr>target := (target s)(?k \<mapsto> result)\<rparr>"
  have st: "store_results (i + 1) rest ?s1 = Inr s'"
    using Cons.prems(1) i by (auto simp: at_def split: if_splits sum.splits)
  have d: "drop i (keys s) = ?k # drop (i + 1) (keys s)"
    using i by (simp add: Cons_nth_drop_Suc)
  have db: "drop i (batch s) = f ?k # drop (i + 1) (batch s)"
    using i Cons.prems(3) by (simp add: Cons_nth_drop_Suc [symmetric])
  have res: "result = t (f ?k)" and rest: "rest = map t (drop (i + 1) (batch s))"
    using Cons.prems(2) db by simp_all
  have k1: "keys ?s1 = keys s" "batch ?s1 = batch s" by simp_all
  have ih: "\<forall>k \<in> set (drop (i + 1) (keys s)).
              k \<in> set (failedKeys s') \<or> target s' k = Some (t (f k))"
    using Cons.IH [OF st] rest Cons.prems(3) k1 by simp
  from store_results_frame_drop [OF st] have
    fr: "\<forall>k. k \<notin> set (drop (i + 1) (keys s)) \<longrightarrow> target s' k = target ?s1 k"
        "set (failedKeys ?s1) \<subseteq> set (failedKeys s')"
    using k1 by simp_all
  have here: "?k \<in> set (failedKeys s') \<or> target s' ?k = Some (t (f ?k))"
  proof (cases "?k \<in> set (drop (i + 1) (keys s))")
    case True
    then show ?thesis using ih by blast
  next
    case False
    show ?thesis
    proof (cases "blank result")
      case True
      then have "?k \<in> set (failedKeys ?s1)" by simp
      then show ?thesis using fr(2) by blast
    next
      case b: False
      have "target s' ?k = target ?s1 ?k" using fr(1) False by blast
      then show ?thesis using b res by simp
    qed
  qed
  show ?case using d here ih by simp
qed

lemma fail_batch_all:
  "length b = length ks \<Longrightarrow> fail_batch ks 0 b failed = Inr (failed @ ks)"
proof -
  assume l: "length b = length ks"
  then obtain f' where f: "fail_batch ks 0 b failed = Inr f'"
    using fail_batch_total [of 0 b ks failed] by auto
  from fail_batch_Inr [OF f] l show ?thesis using f by simp
qed

lemma sendBatch_settled:
  assumes det: "deterministic E t"
    and sb: "sendBatch E lang s = Inr (err, s')"
    and p: "pending_ok source s" and c: "settled t source s"
  shows "pending_ok source s' \<and> settled t source s'
         \<and> set (called_keys s') \<subseteq> set (called_keys s) \<union> set (keys s)
         \<and> set (keys s') \<subseteq> set (keys s)"
proof (cases "batch s = []")
  case True
  then have "s' = s" using sb by simp
  then show ?thesis using p c by simp
next
  case False
  have len: "length (batch s) = length (keys s)" using p by (simp add: pending_ok_def)
  obtain r w' where g: "gptBatchTranslate E (gpt s) (batch s) lang = (r, w')"
    by (cases "gptBatchTranslate E (gpt s) (batch s) lang")
  let ?s1 = "s\<lparr>gpt := w', calls := calls s @ [(keys s, batch s)]\<rparr>"
  have ck1: "set (called_keys ?s1) = set (called_keys s) \<union> set (keys s)"
    by (simp add: called_keys_def)
  show ?thesis
  proof (cases r)
    case (Inl e)
    have "fail_batch (keys s) 0 (batch s) (failedKeys s) = Inr (failedKeys s @ keys s)"
      using len by (rule fail_batch_all)
    then have s': "s' = ?s1\<lparr>failedKeys := failedKeys s @ keys s\<rparr>"
      using sb False g Inl by (simp add: sendBatch_def)
    have "settled t source s'"
      unfolding settled_def succeeded_def
    proof (intro allI impI)
      fix k assume "k \<in> set (called_keys s') \<and> k \<notin> set (failedKeys s')"
      then have "k \<in> set (called_keys s)" "k \<notin> set (failedKeys s)"
        using s' by (auto simp: called_keys_def)
      then show "target s' k = Some (t (lookup source k))"
        using c s' by (simp add: settled_def succeeded_def)
    qed
    moreover have "pending_ok source s'" using p s' by (simp add: pending_ok_def)
    moreover have "set (called_keys s') \<subseteq> set (called_keys s) \<union> set (keys s)"
      using s' by (auto simp: called_keys_def)
    ultimately show ?thesis using s' by simp
  next
    case (Inr rs)
    then have rs: "rs = map t (batch s)"
      using det g unfolding deterministic_def by blast
    obtain s2 where st: "store_results 0 rs ?s1 = Inr s2"
      and s': "s' = s2\<lparr>batch := [], keys := []\<rparr>"
      using sb False g Inr by (auto simp: sendBatch_def Let_def split: sum.splits)
    have b1: "batch ?s1 = map (lookup source) (keys ?s1)" using p by (simp add: pending_ok_def)
    from store_results_det [OF st _ b1, of t] rs
    have new: "\<forall>k \<in> set (keys s). k \<in> set (failedKeys s2)
                 \<or> target s2 k = Some (t (lookup source k))"
      by simp
    from store_results_frame_drop [OF st]
    have old: "\<forall>k. k \<notin> set (keys s) \<longrightarrow> target s2 k = target s k"
      and fk: "set (failedKeys s) \<subseteq> set (failedKeys s2)"
      by simp_all
    from store_results_frame [OF st] have c2: "calls s2 = calls ?s1" by blast
    have "settled t source s'"
      unfolding settled_def succeeded_def
    proof (intro allI impI)
      fix k assume a: "k \<in> set (called_keys s') \<and> k \<notin> set (failedKeys s')"
      then have nf: "k \<notin> set (failedKeys s2)" using s' by simp
      from a have "k \<in> set (called_keys s) \<union> set (keys s)"
        using s' c2 by (auto simp: called_keys_def)
      then show "target s' k = Some (t (lookup source k))"
      proof (cases "k \<in> set (keys s)")
        case True
        then show ?thesis using new nf s' by auto
      next
        case False
        with \<open>k \<in> set (called_keys s) \<union> set (keys s)\<close> have "k \<in> set (called_keys s)" by blast
        moreover have "k \<notin> set (failedKeys s)" using nf fk by blast
        ultimately have "target s k = Some (t (lookup source k))"
          using c by (simp add: settled_def succeeded_def)
        then show ?thesis using old False s' by simp
      qed
    qed
    moreover have "pending_ok source s'" using s' by (simp add: pending_ok_def)
    moreover have "set (called_keys s') \<subseteq> set (called_keys s) \<union> set (keys s)"
      using s' c2 by (auto simp: called_keys_def)
    ultimately show ?thesis using s' by simp
  qed
qed



lemma single_step_plain:
  assumes det: "deterministic E t"
    and "json_array E v = None"
    and st: "single_step E lang mode indep mk k v s = Inr s'"
    and "succeeded k s'" "k \<notin> set (called_keys s)"
  shows "target s' k = Some (t v)"
proof (cases "v \<noteq> [] \<and> single_need mode indep mk (target s) k")
  case False
  then have "calls s' = calls s"
    using st by (cases "v = []") (auto simp: single_step_skip)
  then show ?thesis using assms(4,5) by (simp add: succeeded_def called_keys_def)
next
  case True
  let ?s1 = "s\<lparr>target := override indep (target s) k\<rparr>"
  obtain r w' where g: "gptTranslate E (gpt ?s1) v lang = (r, w')"
    by (cases "gptTranslate E (gpt ?s1) v lang")
  let ?s2 = "?s1\<lparr>gpt := w', calls := calls ?s1 @ [([k], [v])]\<rparr>"
  show ?thesis
  proof (cases "\<exists>res. r = Inr res \<and> \<not> blank res")
    case False
    then have "single_translate E lang k v ?s1 = (False, ?s2)"
      using assms(2) g by (auto simp: single_translate_def Let_def split: sum.splits)
    then have "failedKeys s' = failedKeys s @ [k]"
      using st True by (auto simp: single_step_def single_decide_closed Let_def)
    then show ?thesis using assms(4) by (simp add: succeeded_def)
  next
    case ok: True
    then obtain res where res: "r = Inr res" "\<not> blank res" by blast
    have "res = t v" using det g res(1) unfolding deterministic_def by blast
    moreover have "single_translate E lang k v ?s1
                     = (True, ?s2\<lparr>target := (target ?s2)(k \<mapsto> res)\<rparr>)"
      using assms(2) g res by (simp add: single_translate_def Let_def)
    then have "target s' k = Some res"
      using st True by (auto simp: single_step_def single_decide_closed Let_def)
    ultimately show ?thesis by simp
  qed
qed

lemma single_loop_settled:
  assumes det: "deterministic E t"
    and "settled_plain E t source s" "distinct ks" "\<forall>k\<in>set ks. k \<notin> set (called_keys s)"
  shows "\<exists>s'. single_loop E lang mode indep mk source ks s = Inr s' \<and> settled_plain E t source s'"
proof -
  let ?P = "\<lambda>rem s. settled_plain E t source s \<and> distinct rem
                     \<and> (\<forall>k\<in>set rem. k \<notin> set (called_keys s))"
  have "\<exists>s'. single_loop E lang mode indep mk source ks s = Inr s' \<and> ?P [] s'"
  proof (rule single_loop_rule2 [where P = ?P])
    show "?P ks s" using assms by simp
  next
    fix k rest s
    assume "?P (k # rest) s"
    then show "?P rest s" by simp
  next
    fix k rest v s s'
    assume v: "source k = Some v" and p: "?P (k # rest) s"
      and st: "single_step E lang mode indep mk k v s = Inr s'"
    from p have nk: "k \<notin> set (called_keys s)" and d: "distinct rest" "k \<notin> set rest"
      and rest: "\<forall>k'\<in>set rest. k' \<notin> set (called_keys s)"
      and c: "settled_plain E t source s"
      by simp_all
    from single_step_frame [OF st] obtain cs where
      f: "calls s' = calls s @ cs" "\<forall>c\<in>set cs. fst c = [k]"
         "failedKeys s' = failedKeys s \<or> failedKeys s' = failedKeys s @ [k]"
         "\<forall>k'. k' \<noteq> k \<longrightarrow> target s' k' = target s k'"
      by blast
    have ck: "set (called_keys s') \<subseteq> set (called_keys s) \<union> {k}"
      using called_keys_frame [OF f(1,2)] .
    have "settled_plain E t source s'"
      unfolding settled_plain_def
    proof (intro allI impI)
      fix k' v'
      assume a: "source k' = Some v' \<and> json_array E v' = None \<and> succeeded k' s'"
      show "target s' k' = Some (t v')"
      proof (cases "k' = k")
        case True
        then have "v' = v" using a v by simp
        then show ?thesis using single_step_plain [OF det _ st _ nk] a True by simp
      next
        case False
        then have "k' \<in> set (called_keys s)" using a ck by (auto simp: succeeded_def)
        moreover have "k' \<notin> set (failedKeys s)" using a f(3) by (auto simp: succeeded_def)
        ultimately have "target s k' = Some (t v')"
          using c a by (simp add: settled_plain_def succeeded_def)
        then show ?thesis using f(4) False by simp
      qed
    qed
    moreover have "\<forall>k'\<in>set rest. k' \<notin> set (called_keys s')"
      using rest ck d(2) by auto
    ultimately show "?P rest s'" using d(1) by simp
  qed
  then show ?thesis by blast
qed

lemma batch_step_settled:
  assumes det: "deterministic E t"
    and v: "source k = Some v"
    and st: "batch_step E lang bs mode indep mk k v s = Inr s'"
    and p: "pending_ok source s" and c: "settled t source s"
    and nk: "k \<notin> set (called_keys s)"
  shows "pending_ok source s' \<and> settled t source s'
         \<and> set (called_keys s') \<subseteq> set (called_keys s) \<union> set (keys s) \<union> {k}
         \<and> set (keys s') \<subseteq> set (keys s) \<union> {k}"
proof (cases "v \<noteq> [] \<and> batch_need E mode indep mk (target s) k v")
  case False
  then have s': "s' = s \<or> s' = s\<lparr>target := override indep (target s) k, count := count s + 1\<rparr>"
    using st by (cases "v = []") (auto simp: batch_step_skip)
  have "settled t source s'"
    unfolding settled_def
  proof (intro allI impI)
    fix k' assume a: "succeeded k' s'"
    then have b: "succeeded k' s" using s' by (auto simp: succeeded_def called_keys_def)
    then have "k' \<noteq> k" using nk by (auto simp: succeeded_def)
    then have "target s' k' = target s k'" using s' by (auto simp: override_other)
    then show "target s' k' = Some (t (lookup source k'))" using c b by (simp add: settled_def)
  qed
  moreover have "pending_ok source s'" using p s' by (auto simp: pending_ok_def)
  moreover have "called_keys s' = called_keys s" "keys s' = keys s"
    using s' by (auto simp: called_keys_def)
  ultimately show ?thesis by auto
next
  case True
  then have o: "override indep (target s) k = target s"
    using need_override_batch [of E mode indep mk "target s" k v] by simp
  let ?s2 = "s\<lparr>target := override indep (target s) k, batch := batch s @ [v],
                    keys := keys s @ [k], translatedCount := translatedCount s + 1\<rparr>"
  have p2: "pending_ok source ?s2" using p v by (simp add: pending_ok_def lookup_def)
  have c2: "settled t source ?s2"
    using c o by (simp add: settled_def succeeded_def called_keys_def)
  have ck2: "called_keys ?s2 = called_keys s" by (simp add: called_keys_def)
  show ?thesis
  proof (cases "int (length (batch ?s2)) \<ge> bs")
    case False
    then have s': "s' = ?s2\<lparr>count := count ?s2 + 1\<rparr>"
      using st True by (simp add: batch_step_select Let_def)
    have "settled t source s'"
      using c2 s' by (simp add: settled_def succeeded_def called_keys_def)
    moreover have "pending_ok source s'" using p2 s' by (simp add: pending_ok_def)
    moreover have "called_keys s' = called_keys s" using s' by (simp add: called_keys_def)
    moreover have "keys s' = keys s @ [k]" using s' by simp
    ultimately show ?thesis by auto
  next
    case flush: True
    then obtain err s3 where sb: "sendBatch E lang ?s2 = Inr (err, s3)"
      and s': "s' = s3\<lparr>count := count s3 + 1\<rparr>"
      using st True by (auto simp: batch_step_select Let_def split: sum.splits)
    from sendBatch_settled [OF det sb p2 c2] have
      r: "pending_ok source s3" "settled t source s3"
         "set (called_keys s3) \<subseteq> set (called_keys ?s2) \<union> set (keys ?s2)"
         "set (keys s3) \<subseteq> set (keys ?s2)"
      by blast+
    have "settled t source s'"
      using r(2) s' by (simp add: settled_def succeeded_def called_keys_def)
    moreover have "pending_ok source s'" using r(1) s' by (simp add: pending_ok_def)
    moreover have "set (called_keys s') \<subseteq> set (called_keys s) \<union> set (keys s) \<union> {k}"
      using r(3) s' ck2 by (auto simp: called_keys_def)
    moreover have "set (keys s') \<subseteq> set (keys s) \<union> {k}" using r(4) s' by auto
    ultimately show ?thesis by blast
  qed
qed

lemma batch_loop_settled:
  assumes det: "deterministic E t"
    and l: "batch_loop E lang bs mode indep mk source ks s = Inr s'"
    and "pending_ok source s" "settled t source s" "distinct ks"
    and "\<forall>k\<in>set ks. k \<notin> set (called_keys s) \<and> k \<notin> set (keys s)"
  shows "pending_ok source s' \<and> settled t source s'"
proof -
  let ?P = "\<lambda>rem s. pending_ok source s \<and> settled t source s \<and> distinct rem
                     \<and> (\<forall>k\<in>set rem. k \<notin> set (called_keys s) \<and> k \<notin> set (keys s))"
  have "?P [] s'"
  proof (rule batch_loop_rule2 [where P = ?P, OF l])
    show "?P ks s" using assms by simp
  next
    fix k rest s
    assume "?P (k # rest) s"
    then show "?P rest s" by simp
  next
    fix k rest v s s'
    assume v: "source k = Some v" and p: "?P (k # rest) s"
      and st: "batch_step E lang bs mode indep mk k v s = Inr s'"
    from p have nk: "k \<notin> set (called_keys s)" and d: "distinct rest" "k \<notin> set rest"
      and rest: "\<forall>k'\<in>set rest. k' \<notin> set (called_keys s) \<and> k' \<notin> set (keys s)"
      and c: "settled t source s" and po: "pending_ok source s"
      by simp_all
    from batch_step_settled [OF det v st po c nk] have
      r: "pending_ok source s'" "settled t source s'"
         "set (called_keys s') \<subseteq> set (called_keys s) \<union> set (keys s) \<union> {k}"
         "set (keys s') \<subseteq> set (keys s) \<union> {k}"
      by blast+
    have "\<forall>k'\<in>set rest. k' \<notin> set (called_keys s') \<and> k' \<notin> set (keys s')"
      using rest r(3,4) d(2) by auto
    then show "?P rest s'" using r(1,2) d(1) by simp
  qed
  then show ?thesis by simp
qed

text \<open>
  Where the two strategies agree. With one deterministic translator behind both
  operations, the same source map, target map, override map and mode, and each call
  visiting every key at most once: a key that succeeds under both strategies, and
  whose source value the single-item strategy does not read as a JSON array of
  strings, has the same target value after both calls, the translation of its source
  value; for every batch size.
\<close>

theorem strategies_agree:
  assumes "deterministic E t" "distinct ks1" "distinct ks2"
  shows "\<exists>r1 r2.
           single_process E source tfile indep mode ks1 w1 = Inr r1
         \<and> batch_process E source tfile indep batchSize mode ks2 w2 = Inr r2
         \<and> (\<forall>k v. LocaleItemsMap source k = Some v \<and> json_array E v = None
                 \<and> succeeded k (final r1) \<and> succeeded k (final r2)
               \<longrightarrow> target (final r1) k = target (final r2) k
                   \<and> target (final r2) k = Some (t v))"
proof -
  let ?src = "LocaleItemsMap source"
  let ?mk = "findMissingKeys ?src (LocaleItemsMap tfile)"
  have init1: "settled_plain E t ?src (start source tfile w1)"
    by (simp add: settled_plain_def succeeded_def called_keys_def)
  obtain s1 where l1: "single_loop E (Lang tfile) mode indep ?mk ?src ks1 (start source tfile w1) = Inr s1"
    and c1: "settled_plain E t ?src s1"
    using single_loop_settled [OF assms(1) init1 assms(2), of "Lang tfile" mode indep ?mk]
    by (auto simp: called_keys_def)
  let ?r1 = "finish E tfile (len (LocaleItemsMap source)) (int (translatedCount s1)) s1"
  have r1: "single_process E source tfile indep mode ks1 w1 = Inr ?r1"
    using l1 by (simp add: single_process_def)
  have sl: "same_length E" using assms(1) by (rule deterministic_same_length)
  from batch_process_total [OF sl, of source tfile indep batchSize mode ks2 w2]
  obtain r2 where r2: "batch_process E source tfile indep batchSize mode ks2 w2 = Inr r2"
    by blast
  from batch_process_Inr [OF r2] obtain s err s2 where
    l2: "batch_loop E (Lang tfile) batchSize mode indep ?mk ?src ks2 (start source tfile w2) = Inr s"
    and sb: "sendBatch E (Lang tfile) s = Inr (err, s2)"
    and fin: "r2 = finish E tfile (len (LocaleItemsMap source))
                     (int (translatedCount s2) - int (length (failedKeys s2))) s2"
    by blast
  have "pending_ok ?src (start source tfile w2)" by (simp add: pending_ok_def)
  moreover have "settled t ?src (start source tfile w2)"
    by (simp add: settled_def succeeded_def called_keys_def)
  ultimately have "pending_ok ?src s \<and> settled t ?src s"
    using batch_loop_settled [OF assms(1) l2 _ _ assms(3)] by (simp add: called_keys_def)
  then have c2: "settled t ?src s2"
    using sendBatch_settled [OF assms(1) sb] by blast
  have "\<forall>k v. ?src k = Some v \<and> json_array E v = None
                 \<and> succeeded k (final ?r1) \<and> succeeded k (final r2)
               \<longrightarrow> target (final ?r1) k = target (final r2) k
                   \<and> target (final r2) k = Some (t v)"
  proof (intro allI impI)
    fix k v
    assume a: "?src k = Some v \<and> json_array E v = None
                 \<and> succeeded k (final ?r1) \<and> succeeded k (final r2)"
    then have "succeeded k s1" "succeeded k s2"
      using fin by (simp_all add: succeeded_def finish_final)
    then have "target s1 k = Some (t v)" "target s2 k = Some (t v)"
      using a c1 c2 by (auto simp: settled_plain_def settled_def lookup_def)
    then show "target (final ?r1) k = target (final r2) k
                   \<and> target (final r2) k = Some (t v)"
      using fin by (simp add: finish_final)
  qed
  then show ?thesis using r1 r2 by blast
qed



lemma deterministic_prefix_env: "deterministic prefix_env (\<lambda>v. ''T:'' @ v)"
  by (auto simp: deterministic_def prefix_env_def)

text \<open>
  Claim C4 on a concrete run. One missing key whose source value is a JSON array of
  strings, full mode, no override, batch size 1, the translator that puts \<open>T:\<close>
  before its text, which is deterministic. The single-item strategy translates the elements and encodes the array
  again; the batch strategy, which has no such branch, sends the encoded array as one
  text. The key succeeds under both and ends with two different values.
\<close>

theorem array_value_sent_as_one_text:
  "\<not> isl (single_process prefix_env
        (doc ''en'' ''English'' [''a'' \<mapsto> plain_json [''x'']])
        (doc ''fr'' ''French'' Map.empty) None ''full'' [''a''] 0)
   \<and> \<not> isl (batch_process prefix_env
        (doc ''en'' ''English'' [''a'' \<mapsto> plain_json [''x'']])
        (doc ''fr'' ''French'' Map.empty) None 1 ''full'' [''a''] 0)
   \<and> json_array prefix_env (plain_json [''x'']) = Some [''x'']
   \<and> succeeded ''a'' (final (projr (single_process prefix_env
        (doc ''en'' ''English'' [''a'' \<mapsto> plain_json [''x'']])
        (doc ''fr'' ''French'' Map.empty) None ''full'' [''a''] 0)))
   \<and> succeeded ''a'' (final (projr (batch_process prefix_env
        (doc ''en'' ''English'' [''a'' \<mapsto> plain_json [''x'']])
        (doc ''fr'' ''French'' Map.empty) None 1 ''full'' [''a''] 0)))
   \<and> target (final (projr (single_process prefix_env
        (doc ''en'' ''English'' [''a'' \<mapsto> plain_json [''x'']])
        (doc ''fr'' ''French'' Map.empty) None ''full'' [''a''] 0))) ''a''
      = Some (plain_json [''T:x''])
   \<and> target (final (projr (batch_process prefix_env
        (doc ''en'' ''English'' [''a'' \<mapsto> plain_json [''x'']])
        (doc ''fr'' ''French'' Map.empty) None 1 ''full'' [''a''] 0))) ''a''
      = Some (''T:'' @ plain_json [''x''])
   \<and> plain_json [''T:x''] \<noteq> ''T:'' @ plain_json [''x'']"
  by (simp add: run_defs prefix_env_def succeeded_def plain_json_def store_results.simps)

theorem strategies_agree_witness:
  "deterministic prefix_env (\<lambda>v. ''T:'' @ v)
   \<and> distinct [''a'', ''b''] \<and> distinct [''b'', ''a'']
   \<and> succeeded ''a'' (final (projr (single_process prefix_env
        (doc ''en'' ''English'' [''a'' \<mapsto> ''Hello'', ''b'' \<mapsto> ''Goodbye''])
        (doc ''fr'' ''French'' Map.empty) None ''missing'' [''a'', ''b''] 0)))
   \<and> succeeded ''a'' (final (projr (batch_process prefix_env
        (doc ''en'' ''English'' [''a'' \<mapsto> ''Hello'', ''b'' \<mapsto> ''Goodbye''])
        (doc ''fr'' ''French'' Map.empty) None 2 ''missing'' [''b'', ''a''] 0)))
   \<and> target (final (projr (single_process prefix_env
        (doc ''en'' ''English'' [''a'' \<mapsto> ''Hello'', ''b'' \<mapsto> ''Goodbye''])
        (doc ''fr'' ''French'' Map.empty) None ''missing'' [''a'', ''b''] 0))) ''a''
      = target (final (projr (batch_process prefix_env
        (doc ''en'' ''English'' [''a'' \<mapsto> ''Hello'', ''b'' \<mapsto> ''Goodbye''])
        (doc ''fr'' ''French'' Map.empty) None 2 ''missing'' [''b'', ''a''] 0))) ''a''
   \<and> target (final (projr (batch_process prefix_env
        (doc ''en'' ''English'' [''a'' \<mapsto> ''Hello'', ''b'' \<mapsto> ''Goodbye''])
        (doc ''fr'' ''French'' Map.empty) None 2 ''missing'' [''b'', ''a''] 0))) ''a''
      = Some ''T:Hello''"
proof -
  let ?src = "doc ''en'' ''English'' [''a'' \<mapsto> ''Hello'', ''b'' \<mapsto> ''Goodbye'']"
  let ?tgt = "doc ''fr'' ''French'' Map.empty"
  let ?S = "single_process prefix_env ?src ?tgt None ''missing'' [''a'', ''b''] 0"
  let ?B = "batch_process prefix_env ?src ?tgt None 2 ''missing'' [''b'', ''a''] 0"
  have d: "distinct [''a'', ''b'']" "distinct [''b'', ''a'']" by simp_all
  have s1: "succeeded ''a'' (final (projr ?S))"
    by (simp add: run_defs prefix_env_def succeeded_def)
  have s2: "succeeded ''a'' (final (projr ?B))"
    by (simp add: run_defs prefix_env_def succeeded_def)
  have h: "LocaleItemsMap ?src ''a'' = Some ''Hello''" "json_array prefix_env ''Hello'' = None"
    by (simp_all add: doc_def json_array_def HasPrefix_def)
  from strategies_agree [OF deterministic_prefix_env d,
         of ?src ?tgt None "''missing''" 0 2 0]
  obtain r1 r2 where r: "?S = Inr r1" "?B = Inr r2"
    and a: "\<forall>k v. LocaleItemsMap ?src k = Some v \<and> json_array prefix_env v = None
                 \<and> succeeded k (final r1) \<and> succeeded k (final r2)
               \<longrightarrow> target (final r1) k = target (final r2) k
                   \<and> target (final r2) k = Some (''T:'' @ v)"
    by blast
  have p: "projr ?S = r1" "projr ?B = r2" using r by simp_all
  from a [rule_format, of "''a''" "''Hello''"] h s1 s2 p
  have "target (final (projr ?S)) ''a'' = target (final (projr ?B)) ''a''
        \<and> target (final (projr ?B)) ''a'' = Some ''T:Hello''"
    by simp
  then show ?thesis using deterministic_prefix_env d s1 s2 by blast
qed

section \<open>A flush that fails\<close>

text \<open>
  What \<open>sendBatch\<close> leaves when the call fails: the keys of the batch are added to
  the failed keys and the target map is as before, but \<open>batch\<close> and \<open>keys\<close> are as
  before too, since the error is returned before they are cleared.
\<close>

lemma sendBatch_failure:
  assumes "batch s \<noteq> []" "length (batch s) = length (keys s)"
    and "gptBatchTranslate E (gpt s) (batch s) lang = (Inl e, w')"
  shows "sendBatch E lang s
           = Inr (Some e, s\<lparr>gpt := w', calls := calls s @ [(keys s, batch s)],
                            failedKeys := failedKeys s @ keys s\<rparr>)"
proof -
  have "fail_batch (keys s) 0 (batch s) (failedKeys s) = Inr (failedKeys s @ keys s)"
    using assms(2) by (rule fail_batch_all)
  moreover have "length (batch s) \<noteq> 0" using assms(1) by simp
  ultimately show ?thesis using assms(3) by (simp add: sendBatch_def del: length_0_conv)
qed

text \<open>
  Claim C1 on a concrete run. Batch size 1, two missing keys, a handler whose first
  batch call fails: the failed flush records the key \<open>a\<close> as failed and leaves the
  batch as it is, so the second flush carries \<open>a\<close> again together with \<open>b\<close>; it
  succeeds and writes a translation for \<open>a\<close>, which stays among the failed keys.
\<close>

theorem failed_flush_keeps_batch:
  "\<not> isl (batch_process flaky_env
        (doc ''en'' ''English'' [''a'' \<mapsto> ''Hello'', ''b'' \<mapsto> ''World''])
        (doc ''fr'' ''French'' Map.empty) None 1 ''full'' [''a'', ''b''] 0)
   \<and> calls (final (projr (batch_process flaky_env
        (doc ''en'' ''English'' [''a'' \<mapsto> ''Hello'', ''b'' \<mapsto> ''World''])
        (doc ''fr'' ''French'' Map.empty) None 1 ''full'' [''a'', ''b''] 0)))
     = [([''a''], [''Hello'']), ([''a'', ''b''], [''Hello'', ''World''])]
   \<and> failedKeys (final (projr (batch_process flaky_env
        (doc ''en'' ''English'' [''a'' \<mapsto> ''Hello'', ''b'' \<mapsto> ''World''])
        (doc ''fr'' ''French'' Map.empty) None 1 ''full'' [''a'', ''b''] 0))) = [''a'']
   \<and> target (final (projr (batch_process flaky_env
        (doc ''en'' ''English'' [''a'' \<mapsto> ''Hello'', ''b'' \<mapsto> ''World''])
        (doc ''fr'' ''French'' Map.empty) None 1 ''full'' [''a'', ''b''] 0))) ''a''
     = Some ''T:Hello''
   \<and> console (projr (batch_process flaky_env
        (doc ''en'' ''English'' [''a'' \<mapsto> ''Hello'', ''b'' \<mapsto> ''World''])
        (doc ''fr'' ''French'' Map.empty) None 1 ''full'' [''a'', ''b''] 0))
     = [Summary ''fr.json'' 2 2 1 1]"
  by (simp add: run_defs prefix_env_def flaky_env_def)

text \<open>
  Claim C3 on a concrete run. One source key with a value, no entry for it in the
  target map, and an override map (here an empty one): in missing mode and in full
  mode, under both strategies, no call of the handler is issued and the key ends with
  the empty string.
\<close>

theorem missing_key_with_override_not_translated:
  "\<not> isl (single_process prefix_env
        (doc ''en'' ''English'' [''a'' \<mapsto> ''Hello''])
        (doc ''fr'' ''French'' Map.empty)
        (Some (doc ''custom'' ''French'' Map.empty)) ''missing'' [''a''] 0)
   \<and> \<not> isl (batch_process prefix_env
        (doc ''en'' ''English'' [''a'' \<mapsto> ''Hello''])
        (doc ''fr'' ''French'' Map.empty)
        (Some (doc ''custom'' ''French'' Map.empty)) 1 ''missing'' [''a''] 0)
   \<and> calls (final (projr (single_process prefix_env
        (doc ''en'' ''English'' [''a'' \<mapsto> ''Hello''])
        (doc ''fr'' ''French'' Map.empty)
        (Some (doc ''custom'' ''French'' Map.empty)) ''missing'' [''a''] 0))) = []
   \<and> target (final (projr (single_process prefix_env
        (doc ''en'' ''English'' [''a'' \<mapsto> ''Hello''])
        (doc ''fr'' ''French'' Map.empty)
        (Some (doc ''custom'' ''French'' Map.empty)) ''missing'' [''a''] 0))) ''a'' = Some ''''
   \<and> calls (final (projr (single_process prefix_env
        (doc ''en'' ''English'' [''a'' \<mapsto> ''Hello''])
        (doc ''fr'' ''French'' Map.empty)
        (Some (doc ''custom'' ''French'' Map.empty)) ''full'' [''a''] 0))) = []
   \<and> calls (final (projr (batch_process prefix_env
        (doc ''en'' ''English'' [''a'' \<mapsto> ''Hello''])
        (doc ''fr'' ''French'' Map.empty)
        (Some (doc ''custom'' ''French'' Map.empty)) 1 ''missing'' [''a''] 0))) = []
   \<and> target (final (projr (batch_process prefix_env
        (doc ''en'' ''English'' [''a'' \<mapsto> ''Hello''])
        (doc ''fr'' ''French'' Map.empty)
        (Some (doc ''custom'' ''French'' Map.empty)) 1 ''missing'' [''a''] 0))) ''a'' = Some ''''
   \<and> called_keys (final (projr (single_process prefix_env
        (doc ''en'' ''English'' [''a'' \<mapsto> ''Hello''])
        (doc ''fr'' ''French'' Map.empty) None ''missing'' [''a''] 0))) = [''a'']"
  by (simp add: run_defs prefix_env_def)

end
